theory Spec2Isabelle
  imports Main
begin

section \<open>Collaborators of the asset manager\<close>

text \<open>
  \<^verbatim>\<open>AssetManager.cpp\<close> works on pointers: to bundles (\<^verbatim>\<open>AssetBundle*\<close>), to the front-end,
  to the debug log and to the image and sound handles the bundles return. A pointer that
  may be null is an \<open>option\<close> (\<open>None\<close> is \<^verbatim>\<open>nullptr\<close>); bundle objects live in an explicit
  store, so that two registries can hold the same bundle and a destroyed bundle is gone
  for both.
\<close>

type_synonym addr = nat
type_synonym Frontend = nat
type_synonym DebugLog = nat
type_synonym ImageToken = int
type_synonym SoundEffectToken = int
type_synonym AnimationToken = int
type_synonym PuyoCharacter = int

datatype DebugMessageType = Debug | Error

text \<open>The handles: the manager consumes nothing of them but \<^verbatim>\<open>error()\<close>.\<close>

record FeImage =
  image_data :: nat
  image_error :: bool

record FeSound =
  sound_data :: nat
  sound_error :: bool

text \<open>
  What can go wrong in C++ without a result: a member access through a null pointer
  (one constructor for each place the source can do it) and the use of a bundle that has
  been destroyed.
\<close>

datatype fault = NullBundle | NullSound | NullDebugLog | DeadBundle

text \<open>
  The public members of \<^verbatim>\<open>AssetBundle\<close> that the manager reads and writes, and the state
  of the concrete bundle class behind them.
\<close>

record 'd AssetBundle =
  valid :: bool
  active :: bool
  bundle_debug :: "DebugLog option"
  impl :: 'd

text \<open>
  The declarations \<^verbatim>\<open>AssetManager.cpp\<close> compiles against are not part of the sources at
  hand: the virtual methods of \<^verbatim>\<open>AssetBundle\<close>, the helper \<^verbatim>\<open>toString\<close>, and what
  \<^verbatim>\<open>AssetManager.h\<close> declares (the default argument of \<^verbatim>\<open>loadBundle\<close>, the initial values
  of the members). They are parameters of every operation below. The methods that
  initialise and reload a bundle change the bundle; the lookups and listings read it.
  A listing is the sequence in which the returned \<^verbatim>\<open>std::set\<close> is iterated.
\<close>

record 'd externals =
  bundle_init :: "Frontend option \<Rightarrow> 'd AssetBundle \<Rightarrow> 'd AssetBundle"
  bundle_reload :: "'d AssetBundle \<Rightarrow> 'd AssetBundle"
  bundle_reload_fe :: "Frontend option \<Rightarrow> 'd AssetBundle \<Rightarrow> 'd AssetBundle"
  bundle_clone :: "'d AssetBundle \<Rightarrow> 'd AssetBundle"
  bundle_loadImage :: "ImageToken \<Rightarrow> string \<Rightarrow> 'd AssetBundle \<Rightarrow> FeImage option"
  bundle_loadCharImage :: "ImageToken \<Rightarrow> PuyoCharacter \<Rightarrow> 'd AssetBundle \<Rightarrow> FeImage option"
  bundle_loadSound :: "SoundEffectToken \<Rightarrow> string \<Rightarrow> 'd AssetBundle \<Rightarrow> FeSound option"
  bundle_loadCharSound :: "SoundEffectToken \<Rightarrow> PuyoCharacter \<Rightarrow> 'd AssetBundle \<Rightarrow> FeSound option"
  bundle_getCharAnimationsFolder :: "PuyoCharacter \<Rightarrow> 'd AssetBundle \<Rightarrow> string"
  bundle_getAnimationFolder :: "AnimationToken \<Rightarrow> string \<Rightarrow> 'd AssetBundle \<Rightarrow> string"
  bundle_listPuyoSkins :: "'d AssetBundle \<Rightarrow> string list"
  bundle_listBackgrounds :: "'d AssetBundle \<Rightarrow> string list"
  bundle_listCharacterSkins :: "'d AssetBundle \<Rightarrow> string list"
  bundle_listSfx :: "'d AssetBundle \<Rightarrow> string list"
  toString :: "int \<Rightarrow> string"
  default_priority :: int
  default_front :: "Frontend option"
  default_debug :: "DebugLog option"
  default_activated :: bool

text \<open>The calls the manager makes on a bundle, as they are recorded.\<close>

datatype bundle_call =
    Init "Frontend option"
  | Reload
  | ReloadFe "Frontend option"
  | Clone
  | LoadImage ImageToken string
  | LoadCharImage ImageToken PuyoCharacter
  | LoadSound SoundEffectToken string
  | LoadCharSound SoundEffectToken PuyoCharacter
  | GetCharAnimationsFolder PuyoCharacter
  | GetAnimationFolder AnimationToken string
  | ListPuyoSkins
  | ListBackgrounds
  | ListCharacterSkins
  | ListSfx

text \<open>
  The world outside the manager object: the store of live bundles (\<^verbatim>\<open>new\<close> takes the
  next address, \<^verbatim>\<open>delete\<close> empties one), the entries each debug log has received from
  the manager, and the calls made on bundles so far.
\<close>

record 'd world =
  heap :: "addr \<Rightarrow> 'd AssetBundle option"
  next_addr :: addr
  debug_logs :: "DebugLog \<Rightarrow> (string \<times> DebugMessageType) list"
  trace :: "(addr \<times> bundle_call) list"

record AssetManager =
  m_bundleList :: "addr list"
  m_front :: "Frontend option"
  m_debug :: "DebugLog option"
  activated :: bool

section \<open>Helpers\<close>

text \<open>\<^verbatim>\<open>std::to_string\<close> on an \<^verbatim>\<open>int\<close>: decimal digits, a minus sign when negative.\<close>

fun digits_of :: "nat \<Rightarrow> string" where
  "digits_of n =
     (if n < 10 then [''0123456789'' ! n]
      else digits_of (n div 10) @ [''0123456789'' ! (n mod 10)])"

declare digits_of.simps [simp del]

definition to_string :: "int \<Rightarrow> string" where
  "to_string i = (if i < 0 then CHR ''-'' # digits_of (nat (- i)) else digits_of (nat i))"

text \<open>\<^verbatim>\<open>m_debug->log(msg, type)\<close>.\<close>

definition debug_log ::
  "DebugLog option \<Rightarrow> string \<Rightarrow> DebugMessageType \<Rightarrow> 'd world \<Rightarrow> fault + 'd world" where
  "debug_log dbg msg ty w =
     (case dbg of
        None \<Rightarrow> Inl NullDebugLog
      | Some d \<Rightarrow> Inr (w\<lparr>debug_logs := (debug_logs w)(d := debug_logs w d @ [(msg, ty)])\<rparr>))"

definition record_call :: "addr \<Rightarrow> bundle_call \<Rightarrow> 'd world \<Rightarrow> 'd world" where
  "record_call a c w = w\<lparr>trace := trace w @ [(a, c)]\<rparr>"

section \<open>The bundle registry\<close>

text \<open>\<^verbatim>\<open>AssetManager::reloadBundles\<close>: the loop, with its counter, and the conversion of the
  counter to the \<^verbatim>\<open>bool\<close> the function returns. The counter is an \<^verbatim>\<open>int\<close> that counts
  list nodes one by one; it is taken as a mathematical integer, which it is for every
  registry of fewer than \<open>2^31\<close> entries.\<close>

fun reload_loop ::
  "'d externals \<Rightarrow> Frontend option \<Rightarrow> 'd world \<Rightarrow> int \<Rightarrow> addr list \<Rightarrow> fault + (int \<times> 'd world)" where
  "reload_loop ext fe w number_of_loaded [] = Inr (number_of_loaded, w)"
| "reload_loop ext fe w number_of_loaded (bundle # rest) =
     (case heap w bundle of
        None \<Rightarrow> Inl DeadBundle
      | Some b \<Rightarrow>
          reload_loop ext fe
            (record_call bundle (ReloadFe fe)
               (w\<lparr>heap := (heap w)(bundle \<mapsto> bundle_reload_fe ext fe b)\<rparr>))
            (number_of_loaded + 1) rest)"

definition reloadBundles ::
  "'d externals \<Rightarrow> AssetManager \<Rightarrow> 'd world \<Rightarrow> fault + (bool \<times> 'd world)" where
  "reloadBundles ext m w =
     (case reload_loop ext (m_front m) w 0 (m_bundleList m) of
        Inl e \<Rightarrow> Inl e
      | Inr (number_of_loaded, w') \<Rightarrow> Inr (number_of_loaded \<noteq> 0, w'))"

text \<open>\<^verbatim>\<open>AssetManager::activate\<close>.\<close>

definition activate ::
  "'d externals \<Rightarrow> AssetManager \<Rightarrow> Frontend option \<Rightarrow> DebugLog option \<Rightarrow> 'd world
     \<Rightarrow> fault + (AssetManager \<times> 'd world)" where
  "activate ext m fe debug w =
     (let m1 = m\<lparr>m_front := fe, m_debug := debug\<rparr> in
      case reloadBundles ext m1 w of
        Inl e \<Rightarrow> Inl e
      | Inr (_, w') \<Rightarrow>
          if m_front m1 \<noteq> None \<and> m_debug m1 \<noteq> None
          then Inr (m1\<lparr>activated := True\<rparr>, w')
          else Inr (m1\<lparr>activated := False\<rparr>, w'))"

text \<open>\<^verbatim>\<open>AssetManager::loadBundle\<close>. The bundle is changed in place, whether or not it
  is then valid.\<close>

definition loadBundle ::
  "'d externals \<Rightarrow> AssetManager \<Rightarrow> addr option \<Rightarrow> int \<Rightarrow> 'd world
     \<Rightarrow> fault + (bool \<times> AssetManager \<times> 'd world)" where
  "loadBundle ext m bundle priority w =
     (case bundle of
        None \<Rightarrow> Inl NullBundle
      | Some a \<Rightarrow>
          (case heap w a of
             None \<Rightarrow> Inl DeadBundle
           | Some b \<Rightarrow>
               let b1 = bundle_init ext (m_front m) b;
                   b2 = bundle_reload ext b1;
                   b3 = b2\<lparr>bundle_debug := m_debug m\<rparr>;
                   w' = record_call a Reload (record_call a (Init (m_front m))
                          (w\<lparr>heap := (heap w)(a \<mapsto> b3)\<rparr>))
               in if valid b3
                  then Inr (valid b3, m\<lparr>m_bundleList := m_bundleList m @ [a]\<rparr>, w')
                  else Inr (valid b3, m, w')))"

text \<open>\<^verbatim>\<open>AssetManager::deleteBundle\<close>. \<^verbatim>\<open>std::list::remove\<close> takes out every element equal
  to the pointer; \<^verbatim>\<open>delete\<close> of a null pointer does nothing, of a destroyed bundle it is
  undefined.\<close>

definition deleteBundle ::
  "AssetManager \<Rightarrow> addr option \<Rightarrow> 'd world \<Rightarrow> fault + (bool \<times> AssetManager \<times> 'd world)" where
  "deleteBundle m bundle w =
     (case bundle of
        None \<Rightarrow> Inr (False, m, w)
      | Some a \<Rightarrow>
          (let m' = m\<lparr>m_bundleList := removeAll a (m_bundleList m)\<rparr> in
           case heap w a of
             None \<Rightarrow> Inl DeadBundle
           | Some b \<Rightarrow> Inr (False, m', w\<lparr>heap := (heap w)(a := None)\<rparr>)))"

text \<open>\<^verbatim>\<open>AssetManager::unloadAll\<close>. The list is \<open>kept @ rest\<close> with the iterator at the
  head of \<open>rest\<close>; erasing an element drops it from \<open>rest\<close>, stepping over it moves it to
  \<open>kept\<close>.\<close>

fun unload_loop :: "'d world \<Rightarrow> addr list \<Rightarrow> addr list \<Rightarrow> fault + addr list" where
  "unload_loop w kept [] = Inr kept"
| "unload_loop w kept (i # rest) =
     (case heap w i of
        None \<Rightarrow> Inl DeadBundle
      | Some b \<Rightarrow>
          if \<not> active b then unload_loop w kept rest
          else unload_loop w (kept @ [i]) rest)"

definition unloadAll ::
  "AssetManager \<Rightarrow> 'd world \<Rightarrow> fault + (bool \<times> AssetManager \<times> 'd world)" where
  "unloadAll m w =
     (if m_bundleList m = [] then Inr (True, m, w)
      else
        (case unload_loop w [] (m_bundleList m) of
           Inl e \<Rightarrow> Inl e
         | Inr l \<Rightarrow> Inr (False, m\<lparr>m_bundleList := l\<rparr>, w)))"

section \<open>The resolver\<close>

text \<open>The three loops of the lookups. \<open>f\<close> is the bundle method the loop calls and \<open>c\<close>
  the call as it is recorded; a loop stops (\<^verbatim>\<open>break\<close>) with the candidate it holds.\<close>

fun loadImage_loop ::
  "('d AssetBundle \<Rightarrow> FeImage option) \<Rightarrow> bundle_call \<Rightarrow> 'd world \<Rightarrow> FeImage option
     \<Rightarrow> addr list \<Rightarrow> fault + (FeImage option \<times> 'd world)" where
  "loadImage_loop f c w target [] = Inr (target, w)"
| "loadImage_loop f c w target (bundle # rest) =
     (case heap w bundle of
        None \<Rightarrow> Inl DeadBundle
      | Some b \<Rightarrow>
          (case f b of
             None \<Rightarrow> loadImage_loop f c (record_call bundle c w) None rest
           | Some h \<Rightarrow>
               if \<not> image_error h then Inr (Some h, record_call bundle c w)
               else loadImage_loop f c (record_call bundle c w) (Some h) rest))"

text \<open>The sound loop asks the handle for its error without a null test.\<close>

fun loadSound_loop ::
  "('d AssetBundle \<Rightarrow> FeSound option) \<Rightarrow> bundle_call \<Rightarrow> 'd world \<Rightarrow> FeSound option
     \<Rightarrow> addr list \<Rightarrow> fault + (FeSound option \<times> 'd world)" where
  "loadSound_loop f c w target [] = Inr (target, w)"
| "loadSound_loop f c w target (bundle # rest) =
     (case heap w bundle of
        None \<Rightarrow> Inl DeadBundle
      | Some b \<Rightarrow>
          (case f b of
             None \<Rightarrow> Inl NullSound
           | Some s \<Rightarrow>
               if \<not> sound_error s then Inr (Some s, record_call bundle c w)
               else loadSound_loop f c (record_call bundle c w) None rest))"

fun folder_loop ::
  "('d AssetBundle \<Rightarrow> string) \<Rightarrow> bundle_call \<Rightarrow> 'd world \<Rightarrow> string
     \<Rightarrow> addr list \<Rightarrow> fault + (string \<times> 'd world)" where
  "folder_loop f c w target [] = Inr (target, w)"
| "folder_loop f c w target (bundle # rest) =
     (case heap w bundle of
        None \<Rightarrow> Inl DeadBundle
      | Some b \<Rightarrow>
          if f b \<noteq> [] then Inr (f b, record_call bundle c w)
          else folder_loop f c (record_call bundle c w) (f b) rest)"

text \<open>The tests after the loops, and the error entry they guard.\<close>

definition image_failed :: "FeImage option \<Rightarrow> bool" where
  "image_failed target = (case target of None \<Rightarrow> True | Some h \<Rightarrow> image_error h)"

definition sound_failed :: "FeSound option \<Rightarrow> bool" where
  "sound_failed target = (case target of None \<Rightarrow> True | Some s \<Rightarrow> sound_error s)"

definition log_if ::
  "bool \<Rightarrow> DebugLog option \<Rightarrow> string \<Rightarrow> 'a \<Rightarrow> 'd world \<Rightarrow> fault + ('a \<times> 'd world)" where
  "log_if failed dbg msg target w =
     (if failed
      then (case debug_log dbg msg Error w of
              Inl e \<Rightarrow> Inl e
            | Inr w' \<Rightarrow> Inr (target, w'))
      else Inr (target, w))"

definition loadImage ::
  "'d externals \<Rightarrow> AssetManager \<Rightarrow> ImageToken \<Rightarrow> string \<Rightarrow> 'd world
     \<Rightarrow> fault + (FeImage option \<times> 'd world)" where
  "loadImage ext m token custom w =
     (case loadImage_loop (bundle_loadImage ext token custom) (LoadImage token custom)
             w None (m_bundleList m) of
        Inl e \<Rightarrow> Inl e
      | Inr (target, w') \<Rightarrow>
          log_if (image_failed target) (m_debug m)
            (''Error loading image token '' @ toString ext token @ '' custom '' @ custom)
            target w')"

definition loadImage_char ::
  "'d externals \<Rightarrow> AssetManager \<Rightarrow> ImageToken \<Rightarrow> PuyoCharacter \<Rightarrow> 'd world
     \<Rightarrow> fault + (FeImage option \<times> 'd world)" where
  "loadImage_char ext m token character w =
     (case loadImage_loop (bundle_loadCharImage ext token character)
             (LoadCharImage token character) w None (m_bundleList m) of
        Inl e \<Rightarrow> Inl e
      | Inr (target, w') \<Rightarrow>
          log_if (image_failed target) (m_debug m)
            (''Error loading image token '' @ toString ext token @ '' character ''
               @ to_string character)
            target w')"

definition loadSound ::
  "'d externals \<Rightarrow> AssetManager \<Rightarrow> SoundEffectToken \<Rightarrow> string \<Rightarrow> 'd world
     \<Rightarrow> fault + (FeSound option \<times> 'd world)" where
  "loadSound ext m token custom w =
     (case loadSound_loop (bundle_loadSound ext token custom) (LoadSound token custom)
             w None (m_bundleList m) of
        Inl e \<Rightarrow> Inl e
      | Inr (target, w') \<Rightarrow>
          log_if (sound_failed target) (m_debug m)
            (''Error loading sound token '' @ toString ext token @ '' custom '' @ custom)
            target w')"

definition loadSound_char ::
  "'d externals \<Rightarrow> AssetManager \<Rightarrow> SoundEffectToken \<Rightarrow> PuyoCharacter \<Rightarrow> 'd world
     \<Rightarrow> fault + (FeSound option \<times> 'd world)" where
  "loadSound_char ext m token character w =
     (case loadSound_loop (bundle_loadCharSound ext token character)
             (LoadCharSound token character) w None (m_bundleList m) of
        Inl e \<Rightarrow> Inl e
      | Inr (target, w') \<Rightarrow>
          log_if (sound_failed target) (m_debug m)
            (''Error loading sound token '' @ toString ext token @ '' character ''
               @ to_string character)
            target w')"

definition getAnimationFolder_char ::
  "'d externals \<Rightarrow> AssetManager \<Rightarrow> PuyoCharacter \<Rightarrow> 'd world \<Rightarrow> fault + (string \<times> 'd world)" where
  "getAnimationFolder_char ext m character w =
     (case folder_loop (bundle_getCharAnimationsFolder ext character)
             (GetCharAnimationsFolder character) w [] (m_bundleList m) of
        Inl e \<Rightarrow> Inl e
      | Inr (target, w') \<Rightarrow>
          log_if (target = []) (m_debug m)
            (''Error loading animation script character '' @ to_string character)
            target w')"

definition getAnimationFolder ::
  "'d externals \<Rightarrow> AssetManager \<Rightarrow> AnimationToken \<Rightarrow> string \<Rightarrow> 'd world
     \<Rightarrow> fault + (string \<times> 'd world)" where
  "getAnimationFolder ext m token script_name w =
     (case folder_loop (bundle_getAnimationFolder ext token script_name)
             (GetAnimationFolder token script_name) w [] (m_bundleList m) of
        Inl e \<Rightarrow> Inl e
      | Inr (target, w') \<Rightarrow>
          log_if (target = []) (m_debug m)
            (''Error loading animation script token '' @ toString ext token)
            target w')"

text \<open>The enumerations: every value of every bundle's listing is inserted into one
  \<^verbatim>\<open>std::set\<close>.\<close>

fun list_loop ::
  "('d AssetBundle \<Rightarrow> string list) \<Rightarrow> bundle_call \<Rightarrow> 'd world \<Rightarrow> string set
     \<Rightarrow> addr list \<Rightarrow> fault + (string set \<times> 'd world)" where
  "list_loop f c w result [] = Inr (result, w)"
| "list_loop f c w result (bundle # rest) =
     (case heap w bundle of
        None \<Rightarrow> Inl DeadBundle
      | Some b \<Rightarrow> list_loop f c (record_call bundle c w) (fold insert (f b) result) rest)"

definition listPuyoSkins ::
  "'d externals \<Rightarrow> AssetManager \<Rightarrow> 'd world \<Rightarrow> fault + (string set \<times> 'd world)" where
  "listPuyoSkins ext m w =
     list_loop (bundle_listPuyoSkins ext) ListPuyoSkins w {} (m_bundleList m)"

definition listBackgrounds ::
  "'d externals \<Rightarrow> AssetManager \<Rightarrow> 'd world \<Rightarrow> fault + (string set \<times> 'd world)" where
  "listBackgrounds ext m w =
     list_loop (bundle_listBackgrounds ext) ListBackgrounds w {} (m_bundleList m)"

definition listCharacterSkins ::
  "'d externals \<Rightarrow> AssetManager \<Rightarrow> 'd world \<Rightarrow> fault + (string set \<times> 'd world)" where
  "listCharacterSkins ext m w =
     list_loop (bundle_listCharacterSkins ext) ListCharacterSkins w {} (m_bundleList m)"

definition listSfx ::
  "'d externals \<Rightarrow> AssetManager \<Rightarrow> 'd world \<Rightarrow> fault + (string set \<times> 'd world)" where
  "listSfx ext m w = list_loop (bundle_listSfx ext) ListSfx w {} (m_bundleList m)"

section \<open>The clone facility\<close>

text \<open>\<^verbatim>\<open>AssetManager::AssetManager() = default\<close>: an empty list, and the members as the
  class declaration initialises them.\<close>

definition AssetManager_default :: "'d externals \<Rightarrow> AssetManager" where
  "AssetManager_default ext =
     \<lparr>m_bundleList = [], m_front = default_front ext, m_debug = default_debug ext,
      activated = default_activated ext\<rparr>"

text \<open>\<^verbatim>\<open>AssetManager::clone\<close>. \<^verbatim>\<open>bundle->clone()\<close> makes a new bundle object, at the next
  address of the store.\<close>

fun clone_loop ::
  "'d externals \<Rightarrow> AssetManager \<Rightarrow> 'd world \<Rightarrow> addr list \<Rightarrow> fault + (AssetManager \<times> 'd world)" where
  "clone_loop ext current w [] = Inr (current, w)"
| "clone_loop ext current w (bundle # rest) =
     (case heap w bundle of
        None \<Rightarrow> Inl DeadBundle
      | Some b \<Rightarrow>
          (case loadBundle ext current (Some (next_addr w)) (default_priority ext)
                  (record_call bundle Clone
                     (w\<lparr>heap := (heap w)(next_addr w \<mapsto> bundle_clone ext b),
                        next_addr := Suc (next_addr w)\<rparr>)) of
             Inl e \<Rightarrow> Inl e
           | Inr (_, current', w') \<Rightarrow> clone_loop ext current' w' rest))"

definition clone ::
  "'d externals \<Rightarrow> AssetManager \<Rightarrow> 'd world \<Rightarrow> fault + (AssetManager \<times> 'd world)" where
  "clone ext m w =
     (case clone_loop ext (AssetManager_default ext) w (m_bundleList m) of
        Inl e \<Rightarrow> Inl e
      | Inr (current, w') \<Rightarrow> activate ext current (m_front m) (m_debug m) w')"

section \<open>Notions the statements use\<close>

text \<open>Every pointer of a registry points to a bundle that has not been destroyed.\<close>

definition live :: "'d world \<Rightarrow> addr list \<Rightarrow> bool" where
  "live w as = list_all (\<lambda>a. heap w a \<noteq> None) as"

text \<open>No object lies at or beyond the address the next \<^verbatim>\<open>new\<close> will return.\<close>

definition fresh_above :: "'d world \<Rightarrow> bool" where
  "fresh_above w = (\<forall>a. next_addr w \<le> a \<longrightarrow> heap w a = None)"

text \<open>One \<^verbatim>\<open>reload(fe)\<close> on the bundle at an address of the store.\<close>

definition reload_in_heap ::
  "'d externals \<Rightarrow> Frontend option \<Rightarrow> addr
     \<Rightarrow> (addr \<Rightarrow> 'd AssetBundle option) \<Rightarrow> (addr \<Rightarrow> 'd AssetBundle option)" where
  "reload_in_heap ext fe a h = h(a := map_option (bundle_reload_fe ext fe) (h a))"

definition is_active :: "'d world \<Rightarrow> addr \<Rightarrow> bool" where
  "is_active w a = (case heap w a of None \<Rightarrow> False | Some b \<Rightarrow> active b)"

text \<open>What the bundles of a registry answer to one request, in registry order.\<close>

definition answers :: "'d world \<Rightarrow> ('d AssetBundle \<Rightarrow> 'r) \<Rightarrow> addr list \<Rightarrow> 'r list" where
  "answers w f as = map (\<lambda>a. f (the (heap w a))) as"

text \<open>A clean success; an errored handle that is not null.\<close>

definition image_clean :: "FeImage option \<Rightarrow> bool" where
  "image_clean r = (case r of None \<Rightarrow> False | Some h \<Rightarrow> \<not> image_error h)"

definition sound_clean :: "FeSound option \<Rightarrow> bool" where
  "sound_clean r = (case r of None \<Rightarrow> False | Some s \<Rightarrow> \<not> sound_error s)"

definition sound_errored :: "FeSound option \<Rightarrow> bool" where
  "sound_errored r = (case r of None \<Rightarrow> False | Some s \<Rightarrow> sound_error s)"

text \<open>The world after the bundles \<open>as\<close> have each been asked \<open>c\<close> once, in this order, and
  the world after one error entry on the debug log \<open>d\<close>.\<close>

definition consulted :: "'d world \<Rightarrow> bundle_call \<Rightarrow> addr list \<Rightarrow> 'd world" where
  "consulted w c as = w\<lparr>trace := trace w @ map (\<lambda>a. (a, c)) as\<rparr>"

definition logged :: "DebugLog \<Rightarrow> string \<Rightarrow> 'd world \<Rightarrow> 'd world" where
  "logged d msg w = w\<lparr>debug_logs := (debug_logs w)(d := debug_logs w d @ [(msg, Error)])\<rparr>"

text \<open>What an operation hands back to its caller, if it comes back.\<close>

definition returned :: "fault + ('a \<times> 's) \<Rightarrow> 'a option" where
  "returned r = (case r of Inl e \<Rightarrow> None | Inr (x, s) \<Rightarrow> Some x)"

text \<open>A clone as \<^verbatim>\<open>loadBundle\<close> leaves it in the new manager, whose members still have
  their initial values.\<close>

definition cloned :: "'d externals \<Rightarrow> 'd AssetBundle \<Rightarrow> 'd AssetBundle" where
  "cloned ext b =
     (bundle_reload ext (bundle_init ext (default_front ext) (bundle_clone ext b)))
       \<lparr>bundle_debug := default_debug ext\<rparr>"

text \<open>The slots of a clone run: the address each clone is made at, paired with the
  address of the bundle it is a clone of, in registry order; and whether the clone in a
  slot is valid once the new manager has loaded it.\<close>

definition clone_slots :: "'d world \<Rightarrow> addr list \<Rightarrow> (addr \<times> addr) list" where
  "clone_slots w as = zip [next_addr w ..< next_addr w + length as] as"

definition valid_clone :: "'d externals \<Rightarrow> 'd world \<Rightarrow> addr \<times> addr \<Rightarrow> bool" where
  "valid_clone ext w = (\<lambda>(c, a). valid (cloned ext (the (heap w a))))"

text \<open>Walking the answers as the sound loop does (on over errored handles, stop at a clean
  one): does the walk come to a null handle?\<close>

fun null_consulted :: "FeSound option list \<Rightarrow> bool" where
  "null_consulted [] = False"
| "null_consulted (None # rs) = True"
| "null_consulted (Some s # rs) = (sound_error s \<and> null_consulted rs)"

section \<open>A sample configuration\<close>

text \<open>
  Bundles of five kinds, told apart by the first component of their state; the second
  counts reloads. Kind 0 never becomes valid. Kind 1 has no image (a null handle), an
  errored sound and no folder. Kind 2 has everything. Kind 3 answers with errored
  handles. Kind 4 has an image, and a null handle for every sound.
\<close>

definition sample_reload :: "(nat \<times> nat) AssetBundle \<Rightarrow> (nat \<times> nat) AssetBundle" where
  "sample_reload b = b\<lparr>impl := (fst (impl b), Suc (snd (impl b)))\<rparr>"

definition sample_image :: "(nat \<times> nat) AssetBundle \<Rightarrow> FeImage option" where
  "sample_image b =
     (if fst (impl b) = 2 \<or> fst (impl b) = 4 then Some \<lparr>image_data = fst (impl b), image_error = False\<rparr>
      else if fst (impl b) = 3 then Some \<lparr>image_data = 0, image_error = True\<rparr>
      else None)"

definition sample_sound :: "(nat \<times> nat) AssetBundle \<Rightarrow> FeSound option" where
  "sample_sound b =
     (if fst (impl b) = 2 then Some \<lparr>sound_data = 2, sound_error = False\<rparr>
      else if fst (impl b) = 4 then None
      else Some \<lparr>sound_data = 0, sound_error = True\<rparr>)"

definition sample_folder :: "(nat \<times> nat) AssetBundle \<Rightarrow> string" where
  "sample_folder b = (if fst (impl b) = 2 then ''mod/anim'' else [])"

definition sample_names :: "(nat \<times> nat) AssetBundle \<Rightarrow> string list" where
  "sample_names b =
     (if fst (impl b) = 1 then [''classic'']
      else if fst (impl b) = 2 then [''classic'', ''neon'']
      else [])"

definition sample_ext :: "(nat \<times> nat) externals" where
  "sample_ext =
     \<lparr>bundle_init = (\<lambda>fe b. b\<lparr>valid := (fst (impl b) \<noteq> 0)\<rparr>),
      bundle_reload = sample_reload,
      bundle_reload_fe = (\<lambda>fe. sample_reload),
      bundle_clone = (\<lambda>b. b),
      bundle_loadImage = (\<lambda>token custom. sample_image),
      bundle_loadCharImage = (\<lambda>token character. sample_image),
      bundle_loadSound = (\<lambda>token custom. sample_sound),
      bundle_loadCharSound = (\<lambda>token character. sample_sound),
      bundle_getCharAnimationsFolder = (\<lambda>character. sample_folder),
      bundle_getAnimationFolder = (\<lambda>token script_name. sample_folder),
      bundle_listPuyoSkins = sample_names,
      bundle_listBackgrounds = sample_names,
      bundle_listCharacterSkins = sample_names,
      bundle_listSfx = sample_names,
      toString = to_string,
      default_priority = 0,
      default_front = None,
      default_debug = None,
      default_activated = False\<rparr>"

definition sample_bundle :: "nat \<Rightarrow> bool \<Rightarrow> (nat \<times> nat) AssetBundle" where
  "sample_bundle kind act = \<lparr>valid = True, active = act, bundle_debug = None, impl = (kind, 0)\<rparr>"

text \<open>Five live bundles, the one of kind 3 a tombstone; address 5 is the next free one.\<close>

definition sample_heap :: "addr \<Rightarrow> (nat \<times> nat) AssetBundle option" where
  "sample_heap a =
     (if a = 0 then Some (sample_bundle 0 True)
      else if a = 1 then Some (sample_bundle 1 True)
      else if a = 2 then Some (sample_bundle 2 True)
      else if a = 3 then Some (sample_bundle 3 False)
      else if a = 4 then Some (sample_bundle 4 True)
      else None)"

definition sample_world :: "(nat \<times> nat) world" where
  "sample_world = \<lparr>heap = sample_heap, next_addr = 5, debug_logs = (\<lambda>d. []), trace = []\<rparr>"

definition sample_manager :: "addr list \<Rightarrow> AssetManager" where
  "sample_manager reg = \<lparr>m_bundleList = reg, m_front = Some 0, m_debug = Some 0, activated = True\<rparr>"

section \<open>Auxiliary facts\<close>

subsection \<open>Store, registry and trace\<close>

lemma heap_record_call [simp]: "heap (record_call a c w) = heap w"
  and next_addr_record_call [simp]: "next_addr (record_call a c w) = next_addr w"
  and debug_logs_record_call [simp]: "debug_logs (record_call a c w) = debug_logs w"
  and trace_record_call [simp]: "trace (record_call a c w) = trace w @ [(a, c)]"
  by (simp_all add: record_call_def)

lemma live_Nil [simp]: "live w []"
  by (simp add: live_def)

lemma live_Cons [simp]: "live w (a # as) \<longleftrightarrow> heap w a \<noteq> None \<and> live w as"
  by (simp add: live_def)

lemma live_heap_upd: "live w as \<Longrightarrow> heap w' = (heap w)(a \<mapsto> b) \<Longrightarrow> live w' as"
  by (induction as) auto

lemma live_record_call [simp]: "live (record_call a c w) as = live w as"
  by (simp add: live_def)

lemma reload_loop_live:
  "live w as \<Longrightarrow>
   reload_loop ext fe w n as =
     Inr (n + int (length as),
          w\<lparr>heap := fold (reload_in_heap ext fe) as (heap w),
            trace := trace w @ map (\<lambda>a. (a, ReloadFe fe)) as\<rparr>)"
proof (induction as arbitrary: w n)
  case Nil
  then show ?case by simp
next
  case (Cons a as)
  from Cons.prems obtain b where b: "heap w a = Some b" and rest: "live w as"
    by auto
  define w1 where "w1 = record_call a (ReloadFe fe) (w\<lparr>heap := (heap w)(a \<mapsto> bundle_reload_fe ext fe b)\<rparr>)"
  have h1: "heap w1 = reload_in_heap ext fe a (heap w)"
    using b by (simp add: w1_def reload_in_heap_def)
  have t1: "trace w1 = trace w @ [(a, ReloadFe fe)]"
    by (simp add: w1_def)
  have u1: "w1\<lparr>heap := H, trace := T\<rparr> = w\<lparr>heap := H, trace := T\<rparr>" for H T
    by (simp add: w1_def record_call_def)
  have "heap w1 = (heap w)(a \<mapsto> bundle_reload_fe ext fe b)"
    by (simp add: w1_def)
  with rest have "live w1 as"
    by (rule live_heap_upd)
  from Cons.IH [OF this, of "n + 1"]
  have "reload_loop ext fe w1 (n + 1) as =
          Inr (n + 1 + int (length as),
               w\<lparr>heap := fold (reload_in_heap ext fe) as (reload_in_heap ext fe a (heap w)),
                 trace := (trace w @ [(a, ReloadFe fe)]) @ map (\<lambda>a. (a, ReloadFe fe)) as\<rparr>)"
    by (simp only: h1 t1 u1)
  moreover have "reload_loop ext fe w n (a # as) = reload_loop ext fe w1 (n + 1) as"
    using b by (simp add: w1_def)
  ultimately show ?case
    by simp
qed

lemma fold_reload_count:
  "fold (reload_in_heap ext fe) as h x =
     map_option (bundle_reload_fe ext fe ^^ count_list as x) (h x)"
proof (induction as arbitrary: h)
  case Nil
  then show ?case by (simp add: option.map_ident)
next
  case (Cons a as)
  let ?f = "bundle_reload_fe ext fe"
  let ?h = "reload_in_heap ext fe a h"
  have "fold (reload_in_heap ext fe) (a # as) h x = fold (reload_in_heap ext fe) as ?h x"
    by simp
  also have "\<dots> = map_option (?f ^^ count_list as x) (?h x)"
    by (rule Cons.IH)
  also have "\<dots> = map_option (?f ^^ count_list (a # as) x) (h x)"
  proof (cases "x = a")
    case True
    have "?h a = map_option ?f (h a)"
      by (simp add: reload_in_heap_def)
    moreover have "map_option (?f ^^ n) (map_option ?f (h a)) = map_option (?f ^^ Suc n) (h a)" for n
      by (cases "h a") (simp_all add: funpow_swap1)
    ultimately show ?thesis
      using True by simp
  next
    case False
    then have "?h x = h x"
      by (simp add: reload_in_heap_def)
    with False show ?thesis
      by simp
  qed
  finally show ?case .
qed

lemma removeAll_filter: "removeAll a xs = filter (\<lambda>x. x \<noteq> a) xs"
  by (induction xs) auto

lemma unload_loop_live:
  "live w rest \<Longrightarrow> unload_loop w kept rest = Inr (kept @ filter (is_active w) rest)"
  by (induction rest arbitrary: kept) (auto simp: is_active_def)

lemma sample_heap_simps [simp]:
  "sample_heap 0 = Some (sample_bundle 0 True)"
  "sample_heap (Suc 0) = Some (sample_bundle 1 True)"
  "sample_heap 2 = Some (sample_bundle 2 True)"
  "sample_heap 3 = Some (sample_bundle 3 False)"
  "sample_heap 4 = Some (sample_bundle 4 True)"
  by (simp_all add: sample_heap_def)

lemma heap_sample_world [simp]: "heap sample_world = sample_heap"
  by (simp add: sample_world_def)

lemma m_bundleList_sample_manager [simp]: "m_bundleList (sample_manager reg) = reg"
  by (simp add: sample_manager_def)

lemma consulted_Nil [simp]: "consulted w c [] = w"
  by (simp add: consulted_def)

lemma consulted_Cons: "consulted w c (a # as) = consulted (record_call a c w) c as"
  by (simp add: consulted_def record_call_def)

lemma heap_consulted [simp]: "heap (consulted w c as) = heap w"
  by (simp add: consulted_def)

lemma answers_Nil [simp]: "answers w f [] = []"
  by (simp add: answers_def)

lemma answers_Cons [simp]: "answers w f (a # as) = f (the (heap w a)) # answers w f as"
  by (simp add: answers_def)

lemma answers_record_call [simp]: "answers (record_call a c w) f as = answers w f as"
  by (simp add: answers_def)

lemma answers_append [simp]: "answers w f (as @ bs) = answers w f as @ answers w f bs"
  by (simp add: answers_def)

lemma length_answers [simp]: "length (answers w f as) = length as"
  by (simp add: answers_def)

lemma image_failed_iff: "image_failed r \<longleftrightarrow> \<not> image_clean r"
  by (simp add: image_failed_def image_clean_def split: option.splits)

subsection \<open>The lookup loops\<close>

lemma loadImage_loop_none_clean:
  "live w as \<Longrightarrow> list_all (\<lambda>r. \<not> image_clean r) (answers w f as) \<Longrightarrow>
   loadImage_loop f c w t as = Inr (last (t # answers w f as), consulted w c as)"
proof (induction as arbitrary: w t)
  case Nil
  then show ?case by simp
next
  case (Cons a as)
  then show ?case
    by (auto simp: image_clean_def consulted_Cons split: option.splits)
qed

lemma loadImage_loop_first_clean:
  "live w (pre @ [a]) \<Longrightarrow> list_all (\<lambda>r. \<not> image_clean r) (answers w f pre) \<Longrightarrow>
   image_clean (f (the (heap w a))) \<Longrightarrow>
   loadImage_loop f c w t (pre @ a # post) = Inr (f (the (heap w a)), consulted w c (pre @ [a]))"
proof (induction pre arbitrary: w t)
  case Nil
  then show ?case
    by (auto simp: image_clean_def consulted_Cons split: option.splits)
next
  case (Cons p pre)
  then show ?case
    by (auto simp: image_clean_def consulted_Cons split: option.splits)
qed

lemma folder_loop_none_clean:
  "live w as \<Longrightarrow> list_all (\<lambda>r. r = []) (answers w f as) \<Longrightarrow>
   folder_loop f c w t as = Inr (last (t # answers w f as), consulted w c as)"
proof (induction as arbitrary: w t)
  case Nil
  then show ?case by simp
next
  case (Cons a as)
  then show ?case
    by (auto simp: consulted_Cons)
qed

lemma folder_loop_first_clean:
  "live w (pre @ [a]) \<Longrightarrow> list_all (\<lambda>r. r = []) (answers w f pre) \<Longrightarrow>
   f (the (heap w a)) \<noteq> [] \<Longrightarrow>
   folder_loop f c w t (pre @ a # post) = Inr (f (the (heap w a)), consulted w c (pre @ [a]))"
proof (induction pre arbitrary: w t)
  case Nil
  then show ?case
    by (auto simp: consulted_Cons)
next
  case (Cons p pre)
  then show ?case
    by (auto simp: consulted_Cons)
qed

lemma loadSound_loop_all_errored:
  "live w as \<Longrightarrow> list_all sound_errored (answers w f as) \<Longrightarrow>
   loadSound_loop f c w t as = Inr (if as = [] then t else None, consulted w c as)"
proof (induction as arbitrary: w t)
  case Nil
  then show ?case by simp
next
  case (Cons a as)
  then show ?case
    by (auto simp: sound_errored_def consulted_Cons split: option.splits)
qed

lemma loadSound_loop_first_clean:
  "live w (pre @ [a]) \<Longrightarrow> list_all sound_errored (answers w f pre) \<Longrightarrow>
   sound_clean (f (the (heap w a))) \<Longrightarrow>
   loadSound_loop f c w t (pre @ a # post) = Inr (f (the (heap w a)), consulted w c (pre @ [a]))"
proof (induction pre arbitrary: w t)
  case Nil
  then show ?case
    by (auto simp: sound_clean_def consulted_Cons split: option.splits)
next
  case (Cons p pre)
  then show ?case
    by (auto simp: sound_errored_def sound_clean_def consulted_Cons split: option.splits)
qed

subsection \<open>Lookups that find nothing, and null handles\<close>

lemma log_if_False [simp]: "log_if False dbg msg t w = Inr (t, w)"
  by (simp add: log_if_def)

lemma log_if_True [simp]: "log_if True (Some d) msg t w = Inr (t, logged d msg w)"
  by (simp add: log_if_def debug_log_def logged_def)

lemma log_if_null [simp]: "log_if True None msg t w = Inl NullDebugLog"
  by (simp add: log_if_def debug_log_def)

lemma image_failed_last:
  "list_all image_failed rs \<Longrightarrow> image_failed (last (None # rs))"
  by (induction rs) (auto simp: image_failed_def)

lemma list_all_image_failed:
  "list_all image_failed rs \<Longrightarrow> list_all (\<lambda>r. \<not> image_clean r) rs"
  by (induction rs) (auto simp: image_failed_iff)

lemma last_all_empty: "list_all (\<lambda>r. r = []) rs \<Longrightarrow> last ([] # rs) = []"
  by (induction rs) auto

lemma loadImage_exhausted:
  assumes "live w as" and "list_all image_failed (answers w f as)"
  shows "(case loadImage_loop f c w None as of
            Inl e \<Rightarrow> Inl e
          | Inr (target, w') \<Rightarrow> log_if (image_failed target) (Some d) msg target w')
         = Inr (last (None # answers w f as), logged d msg (consulted w c as))"
  using loadImage_loop_none_clean [OF assms(1) list_all_image_failed [OF assms(2)], of c None]
    image_failed_last [OF assms(2)]
  by simp

lemma loadSound_exhausted:
  assumes "live w as" and "list_all sound_errored (answers w f as)"
  shows "(case loadSound_loop f c w None as of
            Inl e \<Rightarrow> Inl e
          | Inr (target, w') \<Rightarrow> log_if (sound_failed target) (Some d) msg target w')
         = Inr (None, logged d msg (consulted w c as))"
  using loadSound_loop_all_errored [OF assms, of c None]
  by (simp add: sound_failed_def)

lemma folder_exhausted:
  assumes "live w as" and "list_all (\<lambda>r. r = []) (answers w f as)"
  shows "(case folder_loop f c w [] as of
            Inl e \<Rightarrow> Inl e
          | Inr (target, w') \<Rightarrow> log_if (target = []) (Some d) msg target w')
         = Inr ([], logged d msg (consulted w c as))"
  using folder_loop_none_clean [OF assms, of c "[]"] last_all_empty [OF assms(2)]
  by simp

lemma null_consulted_iff:
  "null_consulted rs \<longleftrightarrow> (\<exists>pre post. rs = pre @ None # post \<and> list_all sound_errored pre)"
proof (induction rs rule: null_consulted.induct)
  case 1
  then show ?case by simp
next
  case (2 rs)
  have "None # rs = [] @ None # rs \<and> list_all sound_errored []" by simp
  then show ?case by (metis null_consulted.simps(2))
next
  case (3 s rs)
  show ?case
  proof
    assume "null_consulted (Some s # rs)"
    with 3 obtain pre post where "sound_error s" "rs = pre @ None # post" "list_all sound_errored pre"
      by auto
    then have "Some s # rs = (Some s # pre) @ None # post \<and> list_all sound_errored (Some s # pre)"
      by (simp add: sound_errored_def)
    then show "\<exists>pre post. Some s # rs = pre @ None # post \<and> list_all sound_errored pre"
      by blast
  next
    assume "\<exists>pre post. Some s # rs = pre @ None # post \<and> list_all sound_errored pre"
    then obtain pre post where p: "Some s # rs = pre @ None # post" "list_all sound_errored pre"
      by blast
    then obtain pre' where pre': "pre = Some s # pre'"
      by (cases pre) auto
    with p have "sound_error s" and "rs = pre' @ None # post \<and> list_all sound_errored pre'"
      by (simp_all add: sound_errored_def)
    then have "sound_error s" and "\<exists>pre post. rs = pre @ None # post \<and> list_all sound_errored pre"
      by blast+
    with 3 show "null_consulted (Some s # rs)"
      by simp
  qed
qed

lemma loadSound_loop_cases:
  "live w as \<Longrightarrow>
   (null_consulted (answers w f as) \<and> loadSound_loop f c w t as = Inl NullSound)
   \<or> (\<not> null_consulted (answers w f as) \<and> (\<exists>r. loadSound_loop f c w t as = Inr r))"
proof (induction as arbitrary: w t)
  case Nil
  then show ?case by simp
next
  case (Cons a as)
  from Cons.prems obtain b where b: "heap w a = Some b" and rest: "live w as"
    by auto
  then have "live (record_call a c w) as" by simp
  from Cons.IH [OF this, of None] b show ?case
    by (cases "f b") auto
qed

lemma loadImage_loop_returns:
  "live w as \<Longrightarrow> \<exists>r. loadImage_loop f c w t as = Inr r"
proof (induction as arbitrary: w t)
  case Nil
  then show ?case by simp
next
  case (Cons a as)
  from Cons.prems obtain b where b: "heap w a = Some b" and rest: "live w as"
    by auto
  then have "live (record_call a c w) as" by simp
  from Cons.IH [OF this] b show ?case
    by (cases "f b") auto
qed

lemma log_if_no_NullSound: "log_if failed dbg msg t w \<noteq> Inl NullSound"
  by (cases dbg) (auto simp: log_if_def debug_log_def)

lemma log_if_returns_pair: "\<exists>x w'. log_if failed (Some d) msg t w = Inr (x, w')"
  by (cases failed) auto

lemma sound_lookup_cases:
  assumes "live w as"
  shows "((case loadSound_loop f c w None as of
             Inl e \<Rightarrow> Inl e
           | Inr (target, w') \<Rightarrow> log_if (sound_failed target) dbg msg target w') = Inl NullSound
          \<longleftrightarrow> null_consulted (answers w f as))
       \<and> (dbg \<noteq> None \<longrightarrow>
            ((\<exists>r. (case loadSound_loop f c w None as of
                     Inl e \<Rightarrow> Inl e
                   | Inr (target, w') \<Rightarrow> log_if (sound_failed target) dbg msg target w') = Inr r)
             \<longleftrightarrow> \<not> null_consulted (answers w f as)))"
  using loadSound_loop_cases [OF assms, of f c None]
  by (auto simp: log_if_no_NullSound log_if_returns_pair split: sum.splits prod.splits)

lemma image_lookup_returns:
  assumes "live w as"
  shows "\<exists>r. (case loadImage_loop f c w None as of
                Inl e \<Rightarrow> Inl e
              | Inr (target, w') \<Rightarrow> log_if (image_failed target) (Some d) msg target w') = Inr r"
  using loadImage_loop_returns [OF assms, of f c None]
  by (auto simp: log_if_returns_pair split: prod.splits)

subsection \<open>Enumerations\<close>

lemma fold_insert_set: "fold insert xs A = set xs \<union> A"
  by (induction xs arbitrary: A) auto

lemma list_loop_live:
  "live w as \<Longrightarrow>
   list_loop f c w result as =
     Inr (result \<union> (\<Union>a\<in>set as. set (f (the (heap w a)))), consulted w c as)"
proof (induction as arbitrary: w result)
  case Nil
  then show ?case by simp
next
  case (Cons a as)
  from Cons.prems obtain b where b: "heap w a = Some b" and rest: "live w as"
    by auto
  then have "live (record_call a c w) as" by simp
  from Cons.IH [OF this, of "fold insert (f b) result"] b show ?case
    by (simp add: fold_insert_set consulted_Cons Un_ac)
qed

lemma live_set: "live w as \<longleftrightarrow> (\<forall>a\<in>set as. heap w a \<noteq> None)"
  by (simp add: live_def list_all_iff)

lemma list_loop_order_free:
  assumes "live w as" and "set bs = set as"
  shows "returned (list_loop f c w {} bs) = returned (list_loop f c w {} as)"
proof -
  from assms have "live w bs"
    by (simp add: live_set)
  from list_loop_live [OF this, of f c "{}"] list_loop_live [OF assms(1), of f c "{}"] assms(2)
  show ?thesis
    by (simp add: returned_def)
qed

subsection \<open>The first clean result, by its index\<close>

lemma live_take: "live w as \<Longrightarrow> live w (take n as)"
  by (auto simp: live_set dest: in_set_takeD)

lemma answers_nth: "k < length as \<Longrightarrow> answers w f as ! k = f (the (heap w (as ! k)))"
  by (simp add: answers_def)

lemma answers_take: "answers w f (take k as) = take k (answers w f as)"
  by (simp add: answers_def take_map)

lemma list_all_take_nth:
  "k \<le> length xs \<Longrightarrow> (\<forall>j<k. P (xs ! j)) \<Longrightarrow> list_all P (take k xs)"
  by (simp add: list_all_length)

lemma loadImage_loop_first_clean_at:
  assumes "live w as" and "k < length as"
    and "image_clean (answers w f as ! k)"
    and "\<forall>j<k. \<not> image_clean (answers w f as ! j)"
  shows "loadImage_loop f c w t as = Inr (answers w f as ! k, consulted w c (take (Suc k) as))"
proof -
  have split: "as = take k as @ as ! k # drop (Suc k) as"
    and tk: "take (Suc k) as = take k as @ [as ! k]"
    using assms(2) by (simp_all add: id_take_nth_drop take_Suc_conv_app_nth)
  have "live w (take k as @ [as ! k])"
    using live_take [OF assms(1), of "Suc k"] by (simp only: tk)
  moreover have "list_all (\<lambda>r. \<not> image_clean r) (answers w f (take k as))"
    unfolding answers_take using assms(2,4) by (intro list_all_take_nth) simp_all
  moreover have "image_clean (f (the (heap w (as ! k))))"
    using assms(2,3) by (simp add: answers_nth)
  ultimately have "loadImage_loop f c w t (take k as @ as ! k # drop (Suc k) as)
      = Inr (f (the (heap w (as ! k))), consulted w c (take k as @ [as ! k]))"
    by (rule loadImage_loop_first_clean)
  then show ?thesis
    using assms(2) split tk by (simp add: answers_nth)
qed

lemma folder_loop_first_clean_at:
  assumes "live w as" and "k < length as"
    and "answers w f as ! k \<noteq> []"
    and "\<forall>j<k. answers w f as ! j = []"
  shows "folder_loop f c w t as = Inr (answers w f as ! k, consulted w c (take (Suc k) as))"
proof -
  have split: "as = take k as @ as ! k # drop (Suc k) as"
    and tk: "take (Suc k) as = take k as @ [as ! k]"
    using assms(2) by (simp_all add: id_take_nth_drop take_Suc_conv_app_nth)
  have "live w (take k as @ [as ! k])"
    using live_take [OF assms(1), of "Suc k"] by (simp only: tk)
  moreover have "list_all (\<lambda>r. r = []) (answers w f (take k as))"
    unfolding answers_take using assms(2,4) by (intro list_all_take_nth) simp_all
  moreover have "f (the (heap w (as ! k))) \<noteq> []"
    using assms(2,3) by (simp add: answers_nth)
  ultimately have "folder_loop f c w t (take k as @ as ! k # drop (Suc k) as)
      = Inr (f (the (heap w (as ! k))), consulted w c (take k as @ [as ! k]))"
    by (rule folder_loop_first_clean)
  then show ?thesis
    using assms(2) split tk by (simp add: answers_nth)
qed

lemma loadSound_loop_first_clean_at:
  assumes "live w as" and "k < length as"
    and "sound_clean (answers w f as ! k)"
    and "\<forall>j<k. sound_errored (answers w f as ! j)"
  shows "loadSound_loop f c w t as = Inr (answers w f as ! k, consulted w c (take (Suc k) as))"
proof -
  have split: "as = take k as @ as ! k # drop (Suc k) as"
    and tk: "take (Suc k) as = take k as @ [as ! k]"
    using assms(2) by (simp_all add: id_take_nth_drop take_Suc_conv_app_nth)
  have "live w (take k as @ [as ! k])"
    using live_take [OF assms(1), of "Suc k"] by (simp only: tk)
  moreover have "list_all sound_errored (answers w f (take k as))"
    unfolding answers_take using assms(2,4) by (intro list_all_take_nth) simp_all
  moreover have "sound_clean (f (the (heap w (as ! k))))"
    using assms(2,3) by (simp add: answers_nth)
  ultimately have "loadSound_loop f c w t (take k as @ as ! k # drop (Suc k) as)
      = Inr (f (the (heap w (as ! k))), consulted w c (take k as @ [as ! k]))"
    by (rule loadSound_loop_first_clean)
  then show ?thesis
    using assms(2) split tk by (simp add: answers_nth)
qed

lemma image_clean_not_failed: "image_clean r \<Longrightarrow> \<not> image_failed r"
  by (simp add: image_failed_iff)

lemma sound_clean_not_failed: "sound_clean r \<Longrightarrow> \<not> sound_failed r"
  by (simp add: sound_clean_def sound_failed_def split: option.splits)

subsection \<open>Cloning\<close>

lemma loadBundle_Some:
  assumes "heap w a = Some b"
  shows "loadBundle ext m (Some a) p w =
           (let b' = (bundle_reload ext (bundle_init ext (m_front m) b))\<lparr>bundle_debug := m_debug m\<rparr>
            in Inr (valid b',
                    m\<lparr>m_bundleList := (if valid b' then m_bundleList m @ [a] else m_bundleList m)\<rparr>,
                    w\<lparr>heap := (heap w)(a \<mapsto> b'),
                      trace := trace w @ [(a, Init (m_front m)), (a, Reload)]\<rparr>))"
  using assms by (simp add: loadBundle_def Let_def record_call_def)

lemma activate_live:
  assumes "live w (m_bundleList m)"
  shows "activate ext m fe dbg w =
           Inr (m\<lparr>m_front := fe, m_debug := dbg, activated := (fe \<noteq> None \<and> dbg \<noteq> None)\<rparr>,
                w\<lparr>heap := fold (reload_in_heap ext fe) (m_bundleList m) (heap w),
                  trace := trace w @ map (\<lambda>a. (a, ReloadFe fe)) (m_bundleList m)\<rparr>)"
  using reload_loop_live [OF assms, of ext fe 0]
  by (auto simp add: activate_def reloadBundles_def Let_def)

lemma clone_slots_Nil [simp]: "clone_slots w [] = []"
  by (simp add: clone_slots_def)

lemma clone_slots_Cons:
  "next_addr w' = Suc (next_addr w) \<Longrightarrow>
   clone_slots w (a # as) = (next_addr w, a) # clone_slots w' as"
  by (simp add: clone_slots_def upt_conv_Cons del: upt_Suc)

lemma clone_slots_fst: "(c, a) \<in> set (clone_slots w as) \<Longrightarrow> next_addr w \<le> c \<and> c < next_addr w + length as"
  by (auto simp: clone_slots_def dest: set_zip_leftD)

lemma clone_slots_snd: "(c, a) \<in> set (clone_slots w as) \<Longrightarrow> a \<in> set as"
  by (auto simp: clone_slots_def dest: set_zip_rightD)

lemma distinct_clone_slots: "distinct (map fst (clone_slots w as))"
  by (simp add: clone_slots_def)

lemma live_below: "live w as \<Longrightarrow> fresh_above w \<Longrightarrow> a \<in> set as \<Longrightarrow> a < next_addr w"
  by (auto simp: live_set fresh_above_def not_le [symmetric])

lemma clone_loop_live:
  assumes "live w as" and "fresh_above w"
    and "m_front current = default_front ext" and "m_debug current = default_debug ext"
  shows "\<exists>w'. clone_loop ext current w as =
            Inr (current\<lparr>m_bundleList := m_bundleList current
                     @ map fst (filter (valid_clone ext w) (clone_slots w as))\<rparr>, w')
          \<and> next_addr w' = next_addr w + length as
          \<and> fresh_above w'
          \<and> (\<forall>x<next_addr w. heap w' x = heap w x)
          \<and> (\<forall>(c, a)\<in>set (clone_slots w as). heap w' c = Some (cloned ext (the (heap w a))))"
  using assms
proof (induction as arbitrary: current w)
  case Nil
  then show ?case by simp
next
  case (Cons a as)
  from Cons.prems obtain b where b: "heap w a = Some b" and rest: "live w as"
    by auto
  define N where "N = next_addr w"
  define w1 where "w1 = record_call a Clone
      (w\<lparr>heap := (heap w)(N \<mapsto> bundle_clone ext b), next_addr := Suc N\<rparr>)"
  define w2 where "w2 = w1\<lparr>heap := (heap w1)(N \<mapsto> cloned ext b),
      trace := trace w1 @ [(N, Init (m_front current)), (N, Reload)]\<rparr>"
  define current' where "current' = current\<lparr>m_bundleList :=
      (if valid (cloned ext b) then m_bundleList current @ [N] else m_bundleList current)\<rparr>"
  have hN: "heap w N = None"
    using Cons.prems(2) by (simp add: fresh_above_def N_def)
  have aN: "x \<noteq> N" if "x \<in> set (a # as)" for x
    using live_below [OF Cons.prems(1,2) that] by (simp add: N_def)
  have h1: "heap w1 N = Some (bundle_clone ext b)"
    by (simp add: w1_def)
  have lb: "loadBundle ext current (Some N) (default_priority ext) w1 = Inr (valid (cloned ext b), current', w2)"
    using loadBundle_Some [OF h1, of ext current "default_priority ext"] Cons.prems(3,4)
    by (simp add: Let_def cloned_def current'_def w2_def)
  have step: "clone_loop ext current w (a # as) = clone_loop ext current' w2 as"
    using b lb by (simp add: N_def w1_def)
  have h2: "heap w2 = (heap w)(N \<mapsto> cloned ext b)"
    by (simp add: w2_def w1_def)
  have n2: "next_addr w2 = Suc N"
    by (simp add: w2_def w1_def)
  have l2: "live w2 as"
    using rest h2 by (rule live_heap_upd)
  have f2: "fresh_above w2"
    using Cons.prems(2) by (simp add: fresh_above_def h2 n2 N_def)
  have c2: "m_front current' = default_front ext" "m_debug current' = default_debug ext"
    using Cons.prems(3,4) by (simp_all add: current'_def)
  from Cons.IH [OF l2 f2 c2] obtain w' where
    loop: "clone_loop ext current' w2 as =
            Inr (current'\<lparr>m_bundleList := m_bundleList current'
                     @ map fst (filter (valid_clone ext w2) (clone_slots w2 as))\<rparr>, w')"
    and n': "next_addr w' = next_addr w2 + length as"
    and f': "fresh_above w'"
    and old: "\<forall>x<next_addr w2. heap w' x = heap w2 x"
    and new: "\<forall>(c, a)\<in>set (clone_slots w2 as). heap w' c = Some (cloned ext (the (heap w2 a)))"
    by blast
  have same: "heap w2 x = heap w x" if "x \<in> set as" for x
    using aN [of x] that by (simp add: h2)
  have vc: "filter (valid_clone ext w2) (clone_slots w2 as) = filter (valid_clone ext w) (clone_slots w2 as)"
    by (rule filter_cong) (auto simp: valid_clone_def same dest: clone_slots_snd)
  have slots: "clone_slots w (a # as) = (N, a) # clone_slots w2 as"
    unfolding N_def by (rule clone_slots_Cons) (simp add: n2 N_def)
  have reg: "current'\<lparr>m_bundleList := m_bundleList current'
                     @ map fst (filter (valid_clone ext w2) (clone_slots w2 as))\<rparr>
           = current\<lparr>m_bundleList := m_bundleList current
                     @ map fst (filter (valid_clone ext w) (clone_slots w (a # as)))\<rparr>"
  proof -
    have "valid_clone ext w (N, a) = valid (cloned ext b)"
      using b by (simp add: valid_clone_def)
    then show ?thesis
      by (simp add: vc slots current'_def)
  qed
  have "clone_loop ext current w (a # as) =
            Inr (current\<lparr>m_bundleList := m_bundleList current
                     @ map fst (filter (valid_clone ext w) (clone_slots w (a # as)))\<rparr>, w')"
    by (simp only: step loop reg)
  moreover have "next_addr w' = next_addr w + length (a # as)"
    using n' n2 by (simp add: N_def)
  moreover have "\<forall>x<next_addr w. heap w' x = heap w x"
    using old by (simp add: n2 h2 N_def)
  moreover have "\<forall>(c, a')\<in>set (clone_slots w (a # as)). heap w' c = Some (cloned ext (the (heap w a')))"
  proof -
    have "heap w' N = Some (cloned ext (the (heap w a)))"
      using old b by (simp add: n2 h2)
    moreover have "heap w' c = Some (cloned ext (the (heap w a')))"
      if "(c, a') \<in> set (clone_slots w2 as)" for c a'
      using new that same [OF clone_slots_snd [OF that]] by auto
    ultimately show ?thesis
      by (auto simp: slots)
  qed
  ultimately show ?case
    using f' by blast
qed

lemma fold_reload_distinct:
  "distinct as \<Longrightarrow>
   fold (reload_in_heap ext fe) as h x =
     (if x \<in> set as then map_option (bundle_reload_fe ext fe) (h x) else h x)"
  by (induction as arbitrary: h) (auto simp: reload_in_heap_def)

lemma distinct_map_filter_fst: "distinct (map fst xs) \<Longrightarrow> distinct (map fst (filter P xs))"
  by (induction xs) auto

lemma in_filtered_keys:
  assumes "distinct (map fst xs)" and "(c, a) \<in> set xs"
  shows "c \<in> set (map fst (filter P xs)) \<longleftrightarrow> P (c, a)"
proof
  assume "c \<in> set (map fst (filter P xs))"
  then obtain a' where "(c, a') \<in> set xs" "P (c, a')"
    by auto
  with assms show "P (c, a)"
    using eq_key_imp_eq_value by fastforce
next
  assume "P (c, a)"
  with assms(2) show "c \<in> set (map fst (filter P xs))"
    by force
qed

lemma fresh_above_sample_world: "fresh_above sample_world"
  by (simp add: fresh_above_def sample_world_def sample_heap_def)

section \<open>The bundle registry: properties\<close>

text \<open>
  C8, as the code has it. On a registry of live bundles, \<^verbatim>\<open>reloadBundles\<close> calls
  \<^verbatim>\<open>reload\<close> with the manager's current front-end once for every entry of the registry,
  in registry order: the calls appended to the trace are exactly one \<open>ReloadFe\<close> per
  entry, and every bundle of the store has been reloaded as many times as the registry
  holds it (once when it is entered once, twice when it is entered twice, not at all
  when it is not in the registry). The counter of the loop ends at the length of the
  registry. The function returns a \<^verbatim>\<open>bool\<close>, not the count: true exactly when the count
  is not zero, that is when the registry is not empty.
\<close>

theorem reloadBundles_counts_every_entry:
  assumes "live w (m_bundleList m)"
  shows "\<exists>w'. reload_loop ext (m_front m) w 0 (m_bundleList m) =
               Inr (int (length (m_bundleList m)), w')
           \<and> reloadBundles ext m w = Inr (int (length (m_bundleList m)) \<noteq> 0, w')
           \<and> reloadBundles ext m w = Inr (m_bundleList m \<noteq> [], w')
           \<and> w' = w\<lparr>heap := fold (reload_in_heap ext (m_front m)) (m_bundleList m) (heap w),
                     trace := trace w @ map (\<lambda>a. (a, ReloadFe (m_front m))) (m_bundleList m)\<rparr>
           \<and> (\<forall>x. heap w' x =
                 map_option (bundle_reload_fe ext (m_front m) ^^ count_list (m_bundleList m) x)
                   (heap w x))
           \<and> trace w' = trace w @ map (\<lambda>a. (a, ReloadFe (m_front m))) (m_bundleList m)
           \<and> next_addr w' = next_addr w \<and> debug_logs w' = debug_logs w"
  using reload_loop_live [OF assms, of ext "m_front m" 0]
  by (simp add: reloadBundles_def fold_reload_count)

theorem reloadBundles_counts_every_entry_witness:
  "live sample_world [1, 2]
   \<and> returned (reload_loop sample_ext (Some 0) sample_world 0 [1, 2]) = Some 2
   \<and> returned (reloadBundles sample_ext (sample_manager [1, 2]) sample_world) = Some True
   \<and> returned (reloadBundles sample_ext (sample_manager []) sample_world) = Some False
   \<and> (\<exists>w'. reloadBundles sample_ext (sample_manager [1, 2]) sample_world = Inr (True, w')
         \<and> heap w' 1 = Some \<lparr>valid = True, active = True, bundle_debug = None, impl = (1, 1)\<rparr>
         \<and> heap w' 2 = Some \<lparr>valid = True, active = True, bundle_debug = None, impl = (2, 1)\<rparr>
         \<and> heap w' 3 = Some (sample_bundle 3 False)
         \<and> trace w' = [(1, ReloadFe (Some 0)), (2, ReloadFe (Some 0))])"
proof -
  let ?m = "sample_manager [1, 2]"
  have l: "live sample_world (m_bundleList ?m)"
    and e: "live sample_world (m_bundleList (sample_manager []))"
    by simp_all
  have fe: "m_front ?m = Some 0"
    by (simp add: sample_manager_def)
  have r: "bundle_reload_fe sample_ext f = sample_reload" for f
    by (simp add: sample_ext_def)
  have t: "trace sample_world = []"
    by (simp add: sample_world_def)
  from reloadBundles_counts_every_entry [OF l, of sample_ext]
  obtain w' where
    loop: "reload_loop sample_ext (m_front ?m) sample_world 0 (m_bundleList ?m) =
             Inr (int (length (m_bundleList ?m)), w')"
    and res: "reloadBundles sample_ext ?m sample_world = Inr (m_bundleList ?m \<noteq> [], w')"
    and store: "\<forall>x. heap w' x =
                 map_option (bundle_reload_fe sample_ext (m_front ?m) ^^ count_list (m_bundleList ?m) x)
                   (heap sample_world x)"
    and calls: "trace w' = trace sample_world
                  @ map (\<lambda>a. (a, ReloadFe (m_front ?m))) (m_bundleList ?m)"
    by blast
  have c1: "returned (reload_loop sample_ext (Some 0) sample_world 0 [1, 2]) = Some 2"
    using loop by (simp add: returned_def fe)
  have c2: "reloadBundles sample_ext ?m sample_world = Inr (True, w')"
    using res by simp
  have h1: "heap w' 1 = Some \<lparr>valid = True, active = True, bundle_debug = None, impl = (1, 1)\<rparr>"
    using store [rule_format, of 1] by (simp add: r sample_reload_def sample_bundle_def)
  have h2: "heap w' 2 = Some \<lparr>valid = True, active = True, bundle_debug = None, impl = (2, 1)\<rparr>"
    using store [rule_format, of 2] by (simp add: r sample_reload_def sample_bundle_def)
  have h3: "heap w' 3 = Some (sample_bundle 3 False)"
    using store [rule_format, of 3] by simp
  have tr: "trace w' = [(1, ReloadFe (Some 0)), (2, ReloadFe (Some 0))]"
    using calls by (simp add: t sample_manager_def)
  have c3: "returned (reloadBundles sample_ext (sample_manager []) sample_world) = Some False"
    using reloadBundles_counts_every_entry [OF e, of sample_ext]
    by (auto simp add: returned_def)
  from c2 have c2': "returned (reloadBundles sample_ext ?m sample_world) = Some True"
    by (simp add: returned_def)
  from l c1 c2' c3 c2 h1 h2 h3 tr show ?thesis
    by simp
qed

text \<open>
  C8 as stated fails. What the caller receives is not the count of reload attempts:
  registries of one and of two bundles both give \<open>True\<close>, while the counter of the loop
  ends at 1 and at 2. And a bundle that the registry holds twice is reloaded twice, not
  exactly once.
\<close>

theorem reloadBundles_returns_bool_counterexample:
  "returned (reloadBundles sample_ext (sample_manager [1]) sample_world) = Some True
   \<and> returned (reloadBundles sample_ext (sample_manager [1, 2]) sample_world) = Some True
   \<and> returned (reload_loop sample_ext (Some 0) sample_world 0 [1]) = Some 1
   \<and> returned (reload_loop sample_ext (Some 0) sample_world 0 [1, 2]) = Some 2
   \<and> reloadBundles sample_ext (sample_manager [1, 1]) sample_world =
       Inr (True,
            sample_world
              \<lparr>heap := sample_heap
                 (1 \<mapsto> \<lparr>valid = True, active = True, bundle_debug = None, impl = (1, 2)\<rparr>),
               trace := [(1, ReloadFe (Some 0)), (1, ReloadFe (Some 0))]\<rparr>)"
proof -
  have "returned (reloadBundles sample_ext (sample_manager [1]) sample_world) = Some True
      \<and> returned (reloadBundles sample_ext (sample_manager [1, 2]) sample_world) = Some True
      \<and> returned (reload_loop sample_ext (Some 0) sample_world 0 [1]) = Some 1
      \<and> returned (reload_loop sample_ext (Some 0) sample_world 0 [1, 2]) = Some 2"
    by (simp add: reloadBundles_def returned_def sample_manager_def)
  moreover have "reloadBundles sample_ext (sample_manager [1, 1]) sample_world =
       Inr (True,
            sample_world
              \<lparr>heap := sample_heap
                 (1 \<mapsto> \<lparr>valid = True, active = True, bundle_debug = None, impl = (1, 2)\<rparr>),
               trace := [(1, ReloadFe (Some 0)), (1, ReloadFe (Some 0))]\<rparr>)"
    by (simp add: reloadBundles_def sample_manager_def sample_ext_def sample_reload_def
        sample_bundle_def record_call_def sample_world_def numeral_2_eq_2)
  ultimately show ?thesis
    by simp
qed

text \<open>
  C4. For all arguments \<open>fe\<close> and \<open>dbg\<close> and every prior state of the manager (with a
  registry of live bundles), \<^verbatim>\<open>activate\<close> stores both references, reloads every bundle of
  the registry with the new front-end whatever the references are, and leaves the flag
  \<open>activated\<close> true if and only if both references are non-null; so afterwards the flag
  is true if and only if both stored references are non-null, whatever it was before.
  The reload is what the store shows afterwards: every bundle has had \<^verbatim>\<open>reload(fe)\<close>
  applied as many times as the registry holds it, and nothing else of the world but the
  record of these calls has changed.
\<close>

theorem activate_sets_flag:
  assumes "live w (m_bundleList m)"
  shows "\<exists>m' w'. activate ext m fe dbg w = Inr (m', w')
           \<and> m' = m\<lparr>m_front := fe, m_debug := dbg, activated := (fe \<noteq> None \<and> dbg \<noteq> None)\<rparr>
           \<and> w' = w\<lparr>heap := fold (reload_in_heap ext fe) (m_bundleList m) (heap w),
                     trace := trace w @ map (\<lambda>a. (a, ReloadFe fe)) (m_bundleList m)\<rparr>
           \<and> (\<forall>x. heap w' x =
                 map_option (bundle_reload_fe ext fe ^^ count_list (m_bundleList m) x) (heap w x))
           \<and> next_addr w' = next_addr w \<and> debug_logs w' = debug_logs w
           \<and> m_front m' = fe \<and> m_debug m' = dbg \<and> m_bundleList m' = m_bundleList m
           \<and> (activated m' \<longleftrightarrow> fe \<noteq> None \<and> dbg \<noteq> None)
           \<and> (activated m' \<longleftrightarrow> m_front m' \<noteq> None \<and> m_debug m' \<noteq> None)
           \<and> reloadBundles ext (m\<lparr>m_front := fe, m_debug := dbg\<rparr>) w
               = Inr (m_bundleList m \<noteq> [], w')
           \<and> trace w' = trace w @ map (\<lambda>a. (a, ReloadFe fe)) (m_bundleList m)"
  using reload_loop_live [OF assms, of ext fe 0]
  by (auto simp add: activate_def reloadBundles_def Let_def fold_reload_count)

theorem activate_sets_flag_witness:
  "live sample_world [1, 2]
   \<and> (\<exists>m' w'. activate sample_ext (sample_manager [1, 2]) (Some 7) None sample_world = Inr (m', w')
        \<and> \<not> activated m' \<and> m_front m' = Some 7 \<and> m_debug m' = None
        \<and> heap w' 1 = Some \<lparr>valid = True, active = True, bundle_debug = None, impl = (1, 1)\<rparr>
        \<and> heap w' 2 = Some \<lparr>valid = True, active = True, bundle_debug = None, impl = (2, 1)\<rparr>
        \<and> heap w' 3 = Some (sample_bundle 3 False)
        \<and> trace w' = [(1, ReloadFe (Some 7)), (2, ReloadFe (Some 7))])
   \<and> (\<exists>m' w'. activate sample_ext ((sample_manager [1, 2])\<lparr>activated := False\<rparr>) (Some 7) (Some 8)
          sample_world = Inr (m', w')
        \<and> activated m' \<and> m_front m' = Some 7 \<and> m_debug m' = Some 8)"
proof -
  let ?m = "sample_manager [1, 2]"
  have l: "live sample_world (m_bundleList ?m)"
    and l': "live sample_world (m_bundleList (?m\<lparr>activated := False\<rparr>))"
    by simp_all
  have t: "trace sample_world = []"
    by (simp add: sample_world_def)
  have r: "bundle_reload_fe sample_ext (Some 7) = sample_reload"
    by (simp add: sample_ext_def)
  from activate_sets_flag [OF l, of sample_ext "Some 7" None]
  obtain m' w' where
    res: "activate sample_ext ?m (Some 7) None sample_world = Inr (m', w')"
    and refs: "m_front m' = Some 7" "m_debug m' = None"
      "activated m' \<longleftrightarrow> Some (7::nat) \<noteq> None \<and> (None::nat option) \<noteq> None"
    and store: "\<forall>x. heap w' x =
        map_option (bundle_reload_fe sample_ext (Some 7) ^^ count_list (m_bundleList ?m) x)
          (heap sample_world x)"
    and calls: "trace w' = trace sample_world @ map (\<lambda>a. (a, ReloadFe (Some 7))) (m_bundleList ?m)"
    by blast
  have h1: "heap w' 1 = Some \<lparr>valid = True, active = True, bundle_debug = None, impl = (1, 1)\<rparr>"
    using store [rule_format, of 1] by (simp add: r sample_reload_def sample_bundle_def)
  have h2: "heap w' 2 = Some \<lparr>valid = True, active = True, bundle_debug = None, impl = (2, 1)\<rparr>"
    using store [rule_format, of 2] by (simp add: r sample_reload_def sample_bundle_def)
  have h3: "heap w' 3 = Some (sample_bundle 3 False)"
    using store [rule_format, of 3] by simp
  have tr: "trace w' = [(1, ReloadFe (Some 7)), (2, ReloadFe (Some 7))]"
    using calls by (simp add: t)
  have a: "\<exists>m' w'. activate sample_ext ?m (Some 7) None sample_world = Inr (m', w')
        \<and> \<not> activated m' \<and> m_front m' = Some 7 \<and> m_debug m' = None
        \<and> heap w' 1 = Some \<lparr>valid = True, active = True, bundle_debug = None, impl = (1, 1)\<rparr>
        \<and> heap w' 2 = Some \<lparr>valid = True, active = True, bundle_debug = None, impl = (2, 1)\<rparr>
        \<and> heap w' 3 = Some (sample_bundle 3 False)
        \<and> trace w' = [(1, ReloadFe (Some 7)), (2, ReloadFe (Some 7))]"
    using res refs h1 h2 h3 tr by simp
  from activate_sets_flag [OF l', of sample_ext "Some 7" "Some 8"]
  have b: "\<exists>m' w'. activate sample_ext (?m\<lparr>activated := False\<rparr>) (Some 7) (Some 8)
          sample_world = Inr (m', w')
        \<and> activated m' \<and> m_front m' = Some 7 \<and> m_debug m' = Some 8"
    by simp
  from l a b show ?thesis by simp
qed

text \<open>
  C3. For every live bundle and every priority, \<^verbatim>\<open>loadBundle\<close> runs \<^verbatim>\<open>init\<close> with the
  manager's front-end, then \<^verbatim>\<open>reload\<close>, then stores the manager's debug log in the
  bundle; it appends the bundle at the end of the registry if and only if the bundle is
  then valid, leaving the earlier entries and their order as they were, and returns that
  validity. The priority changes neither the result nor the registry nor anything else.
\<close>

theorem loadBundle_appends_iff_valid:
  assumes "heap w a = Some b"
  shows "loadBundle ext m (Some a) p w =
           (let b' = (bundle_reload ext (bundle_init ext (m_front m) b))\<lparr>bundle_debug := m_debug m\<rparr>
            in Inr (valid b',
                    m\<lparr>m_bundleList := (if valid b' then m_bundleList m @ [a] else m_bundleList m)\<rparr>,
                    w\<lparr>heap := (heap w)(a \<mapsto> b'),
                      trace := trace w @ [(a, Init (m_front m)), (a, Reload)]\<rparr>))
       \<and> loadBundle ext m (Some a) p w = loadBundle ext m (Some a) q w"
  using assms by (simp add: loadBundle_def Let_def record_call_def)

theorem loadBundle_appends_iff_valid_witness:
  "heap sample_world 4 = Some (sample_bundle 4 True)
   \<and> heap sample_world 0 = Some (sample_bundle 0 True)
   \<and> (\<exists>w'. loadBundle sample_ext (sample_manager [1, 2]) (Some 4) 9 sample_world
              = Inr (True, sample_manager [1, 2, 4], w')
          \<and> heap w' 4 = Some \<lparr>valid = True, active = True, bundle_debug = Some 0, impl = (4, 1)\<rparr>)
   \<and> (\<exists>w'. loadBundle sample_ext (sample_manager [1, 2]) (Some 0) 9 sample_world
              = Inr (False, sample_manager [1, 2], w'))"
proof -
  have h4: "heap sample_world 4 = Some (sample_bundle 4 True)"
    and h0: "heap sample_world 0 = Some (sample_bundle 0 True)"
    by simp_all
  from loadBundle_appends_iff_valid [OF h4, of sample_ext "sample_manager [1, 2]" 9 9]
  have a: "\<exists>w'. loadBundle sample_ext (sample_manager [1, 2]) (Some 4) 9 sample_world
              = Inr (True, sample_manager [1, 2, 4], w')
          \<and> heap w' 4 = Some \<lparr>valid = True, active = True, bundle_debug = Some 0, impl = (4, 1)\<rparr>"
    by (simp add: sample_ext_def sample_bundle_def sample_reload_def sample_manager_def)
  from loadBundle_appends_iff_valid [OF h0, of sample_ext "sample_manager [1, 2]" 9 9]
  have b: "\<exists>w'. loadBundle sample_ext (sample_manager [1, 2]) (Some 0) 9 sample_world
              = Inr (False, sample_manager [1, 2], w')"
    by (simp add: sample_ext_def sample_bundle_def sample_reload_def sample_manager_def)
  from h4 h0 a b show ?thesis by simp
qed

text \<open>
  C9. For every live bundle, in the registry or not, \<^verbatim>\<open>deleteBundle\<close> takes the bundle
  out of the registry (every entry that is this bundle; the other entries stay, in their
  order), destroys the bundle, and returns false.
\<close>

theorem deleteBundle_removes_and_destroys:
  assumes "heap w a \<noteq> None"
  shows "deleteBundle m (Some a) w =
           Inr (False, m\<lparr>m_bundleList := filter (\<lambda>x. x \<noteq> a) (m_bundleList m)\<rparr>,
                w\<lparr>heap := (heap w)(a := None)\<rparr>)"
  using assms by (auto simp add: deleteBundle_def Let_def removeAll_filter)

theorem deleteBundle_removes_and_destroys_witness:
  "heap sample_world 2 \<noteq> None
   \<and> deleteBundle (sample_manager [1, 2, 4, 2]) (Some 2) sample_world
       = Inr (False, sample_manager [1, 4], sample_world\<lparr>heap := sample_heap(2 := None)\<rparr>)
   \<and> deleteBundle (sample_manager [1, 4]) (Some 2) sample_world
       = Inr (False, sample_manager [1, 4], sample_world\<lparr>heap := sample_heap(2 := None)\<rparr>)"
proof -
  have h: "heap sample_world 2 \<noteq> None"
    by simp
  show ?thesis
    using h deleteBundle_removes_and_destroys [OF h, of "sample_manager [1, 2, 4, 2]"]
      deleteBundle_removes_and_destroys [OF h, of "sample_manager [1, 4]"]
    by (simp add: sample_manager_def)
qed

text \<open>
  C6. On a registry of live bundles, \<^verbatim>\<open>unloadAll\<close> returns true exactly when the registry
  was empty, and then changes nothing; otherwise it returns false, whether or not a
  bundle was removed. Afterwards the registry holds exactly the entries whose bundle was
  active before the call, in their original order; no bundle is destroyed (the store is
  unchanged).
\<close>

theorem unloadAll_keeps_active:
  assumes "live w (m_bundleList m)"
  shows "unloadAll m w =
           Inr (m_bundleList m = [], m\<lparr>m_bundleList := filter (is_active w) (m_bundleList m)\<rparr>, w)"
  using unload_loop_live [OF assms, of "[]"] by (simp add: unloadAll_def)

theorem unloadAll_keeps_active_witness:
  "live sample_world [1, 3, 2, 3]
   \<and> unloadAll (sample_manager [1, 3, 2, 3]) sample_world
       = Inr (False, sample_manager [1, 2], sample_world)
   \<and> unloadAll (sample_manager [1, 2]) sample_world
       = Inr (False, sample_manager [1, 2], sample_world)
   \<and> unloadAll (sample_manager []) sample_world = Inr (True, sample_manager [], sample_world)"
proof -
  have l: "live sample_world (m_bundleList (sample_manager [1, 3, 2, 3]))"
    and l2: "live sample_world (m_bundleList (sample_manager [1, 2]))"
    and l0: "live sample_world (m_bundleList (sample_manager []))"
    by simp_all
  show ?thesis
    using l unloadAll_keeps_active [OF l] unloadAll_keeps_active [OF l2]
      unloadAll_keeps_active [OF l0]
    by (simp add: sample_manager_def is_active_def sample_bundle_def)
qed

section \<open>The resolver: properties\<close>

text \<open>
  The first bundle with a clean result wins: an image or folder lookup returns the
  result of the first bundle (in registry order) whose result is clean, has asked the
  bundles up to that one and no other, and logs nothing. For a sound lookup the same
  holds when the bundles before that one answer with errored handles, none with null.
\<close>

lemma first_clean_image_wins:
  assumes "live w (m_bundleList m)" and "k < length (m_bundleList m)"
  shows "image_clean (answers w (bundle_loadImage ext token custom) (m_bundleList m) ! k) \<Longrightarrow>
         \<forall>j<k. \<not> image_clean (answers w (bundle_loadImage ext token custom) (m_bundleList m) ! j) \<Longrightarrow>
         loadImage ext m token custom w =
           Inr (answers w (bundle_loadImage ext token custom) (m_bundleList m) ! k,
                consulted w (LoadImage token custom) (take (Suc k) (m_bundleList m)))"
    and "image_clean (answers w (bundle_loadCharImage ext token character) (m_bundleList m) ! k) \<Longrightarrow>
         \<forall>j<k. \<not> image_clean (answers w (bundle_loadCharImage ext token character) (m_bundleList m) ! j) \<Longrightarrow>
         loadImage_char ext m token character w =
           Inr (answers w (bundle_loadCharImage ext token character) (m_bundleList m) ! k,
                consulted w (LoadCharImage token character) (take (Suc k) (m_bundleList m)))"
  using assms
  by (simp_all add: loadImage_def loadImage_char_def loadImage_loop_first_clean_at
      image_clean_not_failed)

lemma first_clean_folder_wins:
  assumes "live w (m_bundleList m)" and "k < length (m_bundleList m)"
  shows "answers w (bundle_getCharAnimationsFolder ext character) (m_bundleList m) ! k \<noteq> [] \<Longrightarrow>
         \<forall>j<k. answers w (bundle_getCharAnimationsFolder ext character) (m_bundleList m) ! j = [] \<Longrightarrow>
         getAnimationFolder_char ext m character w =
           Inr (answers w (bundle_getCharAnimationsFolder ext character) (m_bundleList m) ! k,
                consulted w (GetCharAnimationsFolder character) (take (Suc k) (m_bundleList m)))"
    and "answers w (bundle_getAnimationFolder ext token script_name) (m_bundleList m) ! k \<noteq> [] \<Longrightarrow>
         \<forall>j<k. answers w (bundle_getAnimationFolder ext token script_name) (m_bundleList m) ! j = [] \<Longrightarrow>
         getAnimationFolder ext m token script_name w =
           Inr (answers w (bundle_getAnimationFolder ext token script_name) (m_bundleList m) ! k,
                consulted w (GetAnimationFolder token script_name) (take (Suc k) (m_bundleList m)))"
  using assms
  by (simp_all add: getAnimationFolder_char_def getAnimationFolder_def folder_loop_first_clean_at)

lemma first_clean_sound_wins:
  assumes "live w (m_bundleList m)" and "k < length (m_bundleList m)"
  shows "sound_clean (answers w (bundle_loadSound ext token custom) (m_bundleList m) ! k) \<Longrightarrow>
         \<forall>j<k. sound_errored (answers w (bundle_loadSound ext token custom) (m_bundleList m) ! j) \<Longrightarrow>
         loadSound ext m token custom w =
           Inr (answers w (bundle_loadSound ext token custom) (m_bundleList m) ! k,
                consulted w (LoadSound token custom) (take (Suc k) (m_bundleList m)))"
    and "sound_clean (answers w (bundle_loadCharSound ext token character) (m_bundleList m) ! k) \<Longrightarrow>
         \<forall>j<k. sound_errored (answers w (bundle_loadCharSound ext token character) (m_bundleList m) ! j) \<Longrightarrow>
         loadSound_char ext m token character w =
           Inr (answers w (bundle_loadCharSound ext token character) (m_bundleList m) ! k,
                consulted w (LoadCharSound token character) (take (Suc k) (m_bundleList m)))"
  using assms
  by (simp_all add: loadSound_def loadSound_char_def loadSound_loop_first_clean_at
      sound_clean_not_failed)

text \<open>
  C1 at a registry of two bundles where the first has a null handle for the sound and the
  second has the sound: the second bundle is the first with a clean result, but both
  sound lookups dereference the null handle of the first and never reach it. The image
  lookup on a registry of the same shape steps over the null handle and returns the
  second bundle's image.
\<close>

theorem loadSound_null_before_clean_faults:
  "live sample_world [4, 2]
   \<and> answers sample_world (bundle_loadSound sample_ext 7 ''fire'') [4, 2]
       = [None, Some \<lparr>sound_data = 2, sound_error = False\<rparr>]
   \<and> answers sample_world (bundle_loadCharSound sample_ext 7 12) [4, 2]
       = [None, Some \<lparr>sound_data = 2, sound_error = False\<rparr>]
   \<and> sound_clean (Some \<lparr>sound_data = 2, sound_error = False\<rparr>) \<and> \<not> sound_clean None
   \<and> loadSound sample_ext (sample_manager [4, 2]) 7 ''fire'' sample_world = Inl NullSound
   \<and> loadSound_char sample_ext (sample_manager [4, 2]) 7 12 sample_world = Inl NullSound
   \<and> returned (loadImage sample_ext (sample_manager [1, 2]) 7 ''fire'' sample_world)
       = Some (Some \<lparr>image_data = 2, image_error = False\<rparr>)"
  by (simp add: loadSound_def loadSound_char_def loadImage_def sample_ext_def sample_sound_def
      sample_image_def sample_bundle_def sample_manager_def sound_clean_def image_failed_def
      returned_def)

text \<open>
  C2, as the code has it. On a registry of live bundles and with a debug log bound: when
  no bundle supplies a clean result for the request (for a sound: every bundle answers
  with an errored handle that is not null), the lookup comes back, every bundle has been
  asked once, exactly one entry of severity \<open>Error\<close> has been appended to the debug
  log and nothing else has changed. An image lookup returns the candidate of the last
  bundle, which is null or an errored handle (null on an empty registry); a sound lookup
  returns null; a folder lookup returns the empty string.
\<close>

theorem exhausted_lookup_logs_once:
  assumes "live w (m_bundleList m)" and "m_debug m = Some d"
  shows
    "(list_all image_failed (answers w (bundle_loadImage ext token custom) (m_bundleList m)) \<longrightarrow>
        loadImage ext m token custom w =
          Inr (last (None # answers w (bundle_loadImage ext token custom) (m_bundleList m)),
               logged d (''Error loading image token '' @ toString ext token @ '' custom '' @ custom)
                 (consulted w (LoadImage token custom) (m_bundleList m)))
        \<and> image_failed (last (None # answers w (bundle_loadImage ext token custom) (m_bundleList m))))
   \<and> (list_all image_failed (answers w (bundle_loadCharImage ext token character) (m_bundleList m)) \<longrightarrow>
        loadImage_char ext m token character w =
          Inr (last (None # answers w (bundle_loadCharImage ext token character) (m_bundleList m)),
               logged d (''Error loading image token '' @ toString ext token @ '' character ''
                           @ to_string character)
                 (consulted w (LoadCharImage token character) (m_bundleList m)))
        \<and> image_failed (last (None # answers w (bundle_loadCharImage ext token character) (m_bundleList m))))
   \<and> (list_all sound_errored (answers w (bundle_loadSound ext token custom) (m_bundleList m)) \<longrightarrow>
        loadSound ext m token custom w =
          Inr (None,
               logged d (''Error loading sound token '' @ toString ext token @ '' custom '' @ custom)
                 (consulted w (LoadSound token custom) (m_bundleList m))))
   \<and> (list_all sound_errored (answers w (bundle_loadCharSound ext token character) (m_bundleList m)) \<longrightarrow>
        loadSound_char ext m token character w =
          Inr (None,
               logged d (''Error loading sound token '' @ toString ext token @ '' character ''
                           @ to_string character)
                 (consulted w (LoadCharSound token character) (m_bundleList m))))
   \<and> (list_all (\<lambda>r. r = []) (answers w (bundle_getCharAnimationsFolder ext character) (m_bundleList m)) \<longrightarrow>
        getAnimationFolder_char ext m character w =
          Inr ([],
               logged d (''Error loading animation script character '' @ to_string character)
                 (consulted w (GetCharAnimationsFolder character) (m_bundleList m))))
   \<and> (list_all (\<lambda>r. r = []) (answers w (bundle_getAnimationFolder ext token custom) (m_bundleList m)) \<longrightarrow>
        getAnimationFolder ext m token custom w =
          Inr ([],
               logged d (''Error loading animation script token '' @ toString ext token)
                 (consulted w (GetAnimationFolder token custom) (m_bundleList m))))"
proof -
  note l = assms(1)
  have i1: "list_all image_failed (answers w (bundle_loadImage ext token custom) (m_bundleList m)) \<Longrightarrow>
        loadImage ext m token custom w =
          Inr (last (None # answers w (bundle_loadImage ext token custom) (m_bundleList m)),
               logged d (''Error loading image token '' @ toString ext token @ '' custom '' @ custom)
                 (consulted w (LoadImage token custom) (m_bundleList m)))"
    unfolding loadImage_def assms(2) by (rule loadImage_exhausted [OF l])
  have i2: "list_all image_failed (answers w (bundle_loadCharImage ext token character) (m_bundleList m)) \<Longrightarrow>
        loadImage_char ext m token character w =
          Inr (last (None # answers w (bundle_loadCharImage ext token character) (m_bundleList m)),
               logged d (''Error loading image token '' @ toString ext token @ '' character ''
                           @ to_string character)
                 (consulted w (LoadCharImage token character) (m_bundleList m)))"
    unfolding loadImage_char_def assms(2) by (rule loadImage_exhausted [OF l])
  have s1: "list_all sound_errored (answers w (bundle_loadSound ext token custom) (m_bundleList m)) \<Longrightarrow>
        loadSound ext m token custom w =
          Inr (None,
               logged d (''Error loading sound token '' @ toString ext token @ '' custom '' @ custom)
                 (consulted w (LoadSound token custom) (m_bundleList m)))"
    unfolding loadSound_def assms(2) by (rule loadSound_exhausted [OF l])
  have s2: "list_all sound_errored (answers w (bundle_loadCharSound ext token character) (m_bundleList m)) \<Longrightarrow>
        loadSound_char ext m token character w =
          Inr (None,
               logged d (''Error loading sound token '' @ toString ext token @ '' character ''
                           @ to_string character)
                 (consulted w (LoadCharSound token character) (m_bundleList m)))"
    unfolding loadSound_char_def assms(2) by (rule loadSound_exhausted [OF l])
  have f1: "list_all (\<lambda>r. r = []) (answers w (bundle_getCharAnimationsFolder ext character) (m_bundleList m)) \<Longrightarrow>
        getAnimationFolder_char ext m character w =
          Inr ([],
               logged d (''Error loading animation script character '' @ to_string character)
                 (consulted w (GetCharAnimationsFolder character) (m_bundleList m)))"
    unfolding getAnimationFolder_char_def assms(2) by (rule folder_exhausted [OF l])
  have f2: "list_all (\<lambda>r. r = []) (answers w (bundle_getAnimationFolder ext token custom) (m_bundleList m)) \<Longrightarrow>
        getAnimationFolder ext m token custom w =
          Inr ([],
               logged d (''Error loading animation script token '' @ toString ext token)
                 (consulted w (GetAnimationFolder token custom) (m_bundleList m)))"
    unfolding getAnimationFolder_def assms(2) by (rule folder_exhausted [OF l])
  show ?thesis
    by (intro conjI impI) (assumption | rule i1 i2 s1 s2 f1 f2 image_failed_last)+
qed

theorem exhausted_lookup_logs_once_witness:
  "live sample_world [3] \<and> m_debug (sample_manager [3]) = Some 0
   \<and> list_all image_failed (answers sample_world (bundle_loadImage sample_ext 7 ''fire'') [3])
   \<and> list_all image_failed (answers sample_world (bundle_loadCharImage sample_ext 7 12) [3])
   \<and> list_all sound_errored (answers sample_world (bundle_loadSound sample_ext 7 ''fire'') [3])
   \<and> list_all sound_errored (answers sample_world (bundle_loadCharSound sample_ext 7 12) [3])
   \<and> list_all (\<lambda>r. r = []) (answers sample_world (bundle_getCharAnimationsFolder sample_ext 12) [3])
   \<and> list_all (\<lambda>r. r = []) (answers sample_world (bundle_getAnimationFolder sample_ext 7 ''fire'') [3])
   \<and> loadImage sample_ext (sample_manager [3]) 7 ''fire'' sample_world =
        Inr (Some \<lparr>image_data = 0, image_error = True\<rparr>,
             logged 0 ''Error loading image token 7 custom fire''
               (consulted sample_world (LoadImage 7 ''fire'') [3]))
   \<and> loadImage_char sample_ext (sample_manager [3]) 7 12 sample_world =
        Inr (Some \<lparr>image_data = 0, image_error = True\<rparr>,
             logged 0 ''Error loading image token 7 character 12''
               (consulted sample_world (LoadCharImage 7 12) [3]))
   \<and> loadSound sample_ext (sample_manager [3]) 7 ''fire'' sample_world =
        Inr (None,
             logged 0 ''Error loading sound token 7 custom fire''
               (consulted sample_world (LoadSound 7 ''fire'') [3]))
   \<and> loadSound_char sample_ext (sample_manager [3]) 7 12 sample_world =
        Inr (None,
             logged 0 ''Error loading sound token 7 character 12''
               (consulted sample_world (LoadCharSound 7 12) [3]))
   \<and> getAnimationFolder_char sample_ext (sample_manager [3]) 12 sample_world =
        Inr ([],
             logged 0 ''Error loading animation script character 12''
               (consulted sample_world (GetCharAnimationsFolder 12) [3]))
   \<and> getAnimationFolder sample_ext (sample_manager [3]) 7 ''fire'' sample_world =
        Inr ([],
             logged 0 ''Error loading animation script token 7''
               (consulted sample_world (GetAnimationFolder 7 ''fire'') [3]))
   \<and> debug_logs (logged 0 ''Error loading image token 7 custom fire''
                    (consulted sample_world (LoadImage 7 ''fire'') [3])) 0
        = [(''Error loading image token 7 custom fire'', Error)]"
proof -
  have l: "live sample_world (m_bundleList (sample_manager [3]))"
    and d: "m_debug (sample_manager [3]) = Some 0"
    by (simp_all add: sample_manager_def)
  have s7: "to_string 7 = ''7''" and s12: "to_string 12 = ''12''"
    by (simp_all add: to_string_def digits_of.simps)
  have ext:
    "bundle_loadImage sample_ext = (\<lambda>token custom. sample_image)"
    "bundle_loadCharImage sample_ext = (\<lambda>token character. sample_image)"
    "bundle_loadSound sample_ext = (\<lambda>token custom. sample_sound)"
    "bundle_loadCharSound sample_ext = (\<lambda>token character. sample_sound)"
    "bundle_getCharAnimationsFolder sample_ext = (\<lambda>character. sample_folder)"
    "bundle_getAnimationFolder sample_ext = (\<lambda>token script_name. sample_folder)"
    "toString sample_ext = to_string"
    by (simp_all add: sample_ext_def)
  have b3:
    "sample_image (sample_bundle 3 False) = Some \<lparr>image_data = 0, image_error = True\<rparr>"
    "sample_sound (sample_bundle 3 False) = Some \<lparr>sound_data = 0, sound_error = True\<rparr>"
    "sample_folder (sample_bundle 3 False) = []"
    by (simp_all add: sample_image_def sample_sound_def sample_folder_def sample_bundle_def)
  show ?thesis
    using l d exhausted_lookup_logs_once [OF l d, of sample_ext 7 "''fire''" 12]
    by (simp add: ext b3 s7 s12 image_failed_def sound_errored_def logged_def consulted_def
        sample_world_def)
qed

text \<open>
  C2 as stated fails. A registry whose only bundle answers the image request with an
  errored handle gets that handle back, not null; and with no debug log bound, a lookup
  that finds nothing does not come back at all.
\<close>

theorem exhausted_lookup_counterexample:
  "live sample_world [3]
   \<and> answers sample_world (bundle_loadImage sample_ext 7 ''fire'') [3]
       = [Some \<lparr>image_data = 0, image_error = True\<rparr>]
   \<and> \<not> image_clean (Some \<lparr>image_data = 0, image_error = True\<rparr>)
   \<and> returned (loadImage sample_ext (sample_manager [3]) 7 ''fire'' sample_world)
       = Some (Some \<lparr>image_data = 0, image_error = True\<rparr>)
   \<and> answers sample_world (bundle_loadImage sample_ext 7 ''fire'') [1] = [None]
   \<and> loadImage sample_ext ((sample_manager [1])\<lparr>m_debug := None\<rparr>) 7 ''fire'' sample_world
       = Inl NullDebugLog"
  by (simp add: loadImage_def sample_ext_def sample_image_def sample_bundle_def
      sample_manager_def image_failed_def image_clean_def log_if_def debug_log_def returned_def)

text \<open>
  C10. Both sound lookups ask every handle a bundle returns for its error without a null
  test. On a registry of live bundles a sound lookup dereferences a null handle if and
  only if a bundle it consults returns one; with a debug log bound it comes back if and
  only if no consulted bundle returns null. The image lookups test for null first: with
  a debug log bound they always come back.
\<close>

theorem loadSound_total_iff_no_null_consulted:
  assumes "live w (m_bundleList m)"
  shows
    "(loadSound ext m token custom w = Inl NullSound
        \<longleftrightarrow> null_consulted (answers w (bundle_loadSound ext token custom) (m_bundleList m)))
   \<and> (loadSound_char ext m token character w = Inl NullSound
        \<longleftrightarrow> null_consulted (answers w (bundle_loadCharSound ext token character) (m_bundleList m)))
   \<and> (m_debug m \<noteq> None \<longrightarrow>
        ((\<exists>r. loadSound ext m token custom w = Inr r)
           \<longleftrightarrow> \<not> null_consulted (answers w (bundle_loadSound ext token custom) (m_bundleList m)))
      \<and> ((\<exists>r. loadSound_char ext m token character w = Inr r)
           \<longleftrightarrow> \<not> null_consulted (answers w (bundle_loadCharSound ext token character) (m_bundleList m)))
      \<and> (\<exists>r. loadImage ext m token custom w = Inr r)
      \<and> (\<exists>r. loadImage_char ext m token character w = Inr r))"
proof -
  note s = sound_lookup_cases [OF assms]
  have s1: "loadSound ext m token custom w = Inl NullSound
        \<longleftrightarrow> null_consulted (answers w (bundle_loadSound ext token custom) (m_bundleList m))"
    unfolding loadSound_def by (rule s [THEN conjunct1])
  have s2: "loadSound_char ext m token character w = Inl NullSound
        \<longleftrightarrow> null_consulted (answers w (bundle_loadCharSound ext token character) (m_bundleList m))"
    unfolding loadSound_char_def by (rule s [THEN conjunct1])
  have t1: "m_debug m \<noteq> None \<Longrightarrow> (\<exists>r. loadSound ext m token custom w = Inr r)
           \<longleftrightarrow> \<not> null_consulted (answers w (bundle_loadSound ext token custom) (m_bundleList m))"
    unfolding loadSound_def by (rule s [THEN conjunct2, rule_format])
  have t2: "m_debug m \<noteq> None \<Longrightarrow> (\<exists>r. loadSound_char ext m token character w = Inr r)
           \<longleftrightarrow> \<not> null_consulted (answers w (bundle_loadCharSound ext token character) (m_bundleList m))"
    unfolding loadSound_char_def by (rule s [THEN conjunct2, rule_format])
  have i1: "\<exists>r. loadImage ext m token custom w = Inr r" if "m_debug m \<noteq> None"
  proof -
    from that obtain d where d: "m_debug m = Some d" by auto
    show ?thesis
      unfolding loadImage_def d by (rule image_lookup_returns [OF assms])
  qed
  have i2: "\<exists>r. loadImage_char ext m token character w = Inr r" if "m_debug m \<noteq> None"
  proof -
    from that obtain d where d: "m_debug m = Some d" by auto
    show ?thesis
      unfolding loadImage_char_def d by (rule image_lookup_returns [OF assms])
  qed
  show ?thesis
    by (intro conjI impI) (assumption | rule s1 s2 t1 t2 i1 i2)+
qed

theorem loadSound_total_iff_no_null_consulted_witness:
  "live sample_world [3, 4, 2] \<and> m_debug (sample_manager [3, 4, 2]) \<noteq> None
   \<and> answers sample_world (bundle_loadSound sample_ext 7 ''fire'') [3, 4, 2]
       = [Some \<lparr>sound_data = 0, sound_error = True\<rparr>, None, Some \<lparr>sound_data = 2, sound_error = False\<rparr>]
   \<and> loadSound sample_ext (sample_manager [3, 4, 2]) 7 ''fire'' sample_world = Inl NullSound
   \<and> loadSound_char sample_ext (sample_manager [3, 4, 2]) 7 12 sample_world = Inl NullSound
   \<and> (\<exists>r. loadImage sample_ext (sample_manager [3, 4, 2]) 7 ''fire'' sample_world = Inr r)
   \<and> (\<exists>r. loadImage_char sample_ext (sample_manager [3, 4, 2]) 7 12 sample_world = Inr r)"
proof -
  have l: "live sample_world (m_bundleList (sample_manager [3, 4, 2]))"
    and d: "m_debug (sample_manager [3, 4, 2]) \<noteq> None"
    by (simp_all add: sample_manager_def)
  have a: "answers sample_world (bundle_loadSound sample_ext 7 ''fire'') [3, 4, 2]
       = [Some \<lparr>sound_data = 0, sound_error = True\<rparr>, None, Some \<lparr>sound_data = 2, sound_error = False\<rparr>]"
    and a': "answers sample_world (bundle_loadCharSound sample_ext 7 12) [3, 4, 2]
       = [Some \<lparr>sound_data = 0, sound_error = True\<rparr>, None, Some \<lparr>sound_data = 2, sound_error = False\<rparr>]"
    by (simp_all add: sample_ext_def sample_sound_def sample_bundle_def)
  show ?thesis
    using l d a loadSound_total_iff_no_null_consulted [OF l, of sample_ext 7 "''fire''" 12]
    by (simp add: sample_ext_def sample_sound_def sample_bundle_def)
qed

text \<open>
  C7. On a registry of live bundles, each of the four enumerations asks every bundle of
  the registry once and returns the union of the bundles' listings: a name is in the
  result exactly when some bundle of the registry lists it. The result is a set, so a
  name listed twice is in it once, and it depends on which bundles are in the registry
  only, not on their order or on how often one is entered.
\<close>

theorem enumerations_are_unions:
  assumes "live w (m_bundleList m)"
  shows
    "listPuyoSkins ext m w =
       Inr (\<Union>a\<in>set (m_bundleList m). set (bundle_listPuyoSkins ext (the (heap w a))),
            consulted w ListPuyoSkins (m_bundleList m))
   \<and> listBackgrounds ext m w =
       Inr (\<Union>a\<in>set (m_bundleList m). set (bundle_listBackgrounds ext (the (heap w a))),
            consulted w ListBackgrounds (m_bundleList m))
   \<and> listCharacterSkins ext m w =
       Inr (\<Union>a\<in>set (m_bundleList m). set (bundle_listCharacterSkins ext (the (heap w a))),
            consulted w ListCharacterSkins (m_bundleList m))
   \<and> listSfx ext m w =
       Inr (\<Union>a\<in>set (m_bundleList m). set (bundle_listSfx ext (the (heap w a))),
            consulted w ListSfx (m_bundleList m))
   \<and> (\<forall>m'. set (m_bundleList m') = set (m_bundleList m) \<longrightarrow>
         returned (listPuyoSkins ext m' w) = returned (listPuyoSkins ext m w)
       \<and> returned (listBackgrounds ext m' w) = returned (listBackgrounds ext m w)
       \<and> returned (listCharacterSkins ext m' w) = returned (listCharacterSkins ext m w)
       \<and> returned (listSfx ext m' w) = returned (listSfx ext m w))"
  using list_loop_live [OF assms] list_loop_order_free [OF assms]
  by (simp add: listPuyoSkins_def listBackgrounds_def listCharacterSkins_def listSfx_def)

theorem enumerations_are_unions_witness:
  "live sample_world [1, 2, 1]
   \<and> returned (listPuyoSkins sample_ext (sample_manager [1, 2, 1]) sample_world)
       = Some {''classic'', ''neon''}
   \<and> returned (listBackgrounds sample_ext (sample_manager [1, 2, 1]) sample_world)
       = Some {''classic'', ''neon''}
   \<and> returned (listCharacterSkins sample_ext (sample_manager [1, 2, 1]) sample_world)
       = Some {''classic'', ''neon''}
   \<and> returned (listSfx sample_ext (sample_manager [1, 2, 1]) sample_world)
       = Some {''classic'', ''neon''}
   \<and> returned (listSfx sample_ext (sample_manager [2, 1]) sample_world)
       = returned (listSfx sample_ext (sample_manager [1, 2, 1]) sample_world)
   \<and> returned (listSfx sample_ext (sample_manager [3, 1]) sample_world) = Some {''classic''}"
proof -
  have l: "live sample_world (m_bundleList (sample_manager [1, 2, 1]))"
    and l': "live sample_world (m_bundleList (sample_manager [3, 1]))"
    by simp_all
  have s: "set (m_bundleList (sample_manager [2, 1])) = set (m_bundleList (sample_manager [1, 2, 1]))"
    by auto
  note n = sample_names_def sample_bundle_def
  have e: "bundle_listPuyoSkins sample_ext = sample_names"
    "bundle_listBackgrounds sample_ext = sample_names"
    "bundle_listCharacterSkins sample_ext = sample_names"
    "bundle_listSfx sample_ext = sample_names"
    by (simp_all add: sample_ext_def)
  note u = enumerations_are_unions [OF l, of sample_ext]
  have a1: "returned (listPuyoSkins sample_ext (sample_manager [1, 2, 1]) sample_world)
       = Some {''classic'', ''neon''}"
    using u [THEN conjunct1] by (auto simp add: returned_def e n)
  have a2: "returned (listBackgrounds sample_ext (sample_manager [1, 2, 1]) sample_world)
       = Some {''classic'', ''neon''}"
    using u [THEN conjunct2, THEN conjunct1] by (auto simp add: returned_def e n)
  have a3: "returned (listCharacterSkins sample_ext (sample_manager [1, 2, 1]) sample_world)
       = Some {''classic'', ''neon''}"
    using u [THEN conjunct2, THEN conjunct2, THEN conjunct1] by (auto simp add: returned_def e n)
  have a4: "returned (listSfx sample_ext (sample_manager [1, 2, 1]) sample_world)
       = Some {''classic'', ''neon''}"
    using u [THEN conjunct2, THEN conjunct2, THEN conjunct2, THEN conjunct1]
    by (auto simp add: returned_def e n)
  note a = a1 a2 a3 a4
  from u s
  have b: "returned (listSfx sample_ext (sample_manager [2, 1]) sample_world)
       = returned (listSfx sample_ext (sample_manager [1, 2, 1]) sample_world)"
    by blast
  have c: "returned (listSfx sample_ext (sample_manager [3, 1]) sample_world) = Some {''classic''}"
    using enumerations_are_unions [OF l', of sample_ext, THEN conjunct2, THEN conjunct2,
        THEN conjunct2, THEN conjunct1]
    by (auto simp add: returned_def e n)
  from l a b c show ?thesis by simp
qed

section \<open>The clone facility: properties\<close>

text \<open>
  C5. On a registry of live bundles (and a store whose next address is unused),
  \<^verbatim>\<open>clone\<close> returns a new manager. For every registry entry, in order, a clone of the
  bundle is made at a new address and put through \<^verbatim>\<open>loadBundle\<close> of the new manager
  (\<^verbatim>\<open>init\<close>, \<^verbatim>\<open>reload\<close>, debug log, appended if then valid); the new manager is then
  activated with the front-end and debug log of the source, which reloads the clones it
  holds. The new registry holds the addresses of the valid clones in order, the two
  managers have the same front-end and debug log and no bundle in common, the bundles
  of the source are as they were, and destroying a bundle of the clone leaves every
  bundle of the source's registry untouched.
\<close>

theorem clone_is_independent:
  assumes "live w (m_bundleList m)" and "fresh_above w"
  shows "\<exists>m' w'. clone ext m w = Inr (m', w')
     \<and> m_bundleList m' = map fst (filter (valid_clone ext w) (clone_slots w (m_bundleList m)))
     \<and> m_front m' = m_front m \<and> m_debug m' = m_debug m
     \<and> (activated m' \<longleftrightarrow> m_front m \<noteq> None \<and> m_debug m \<noteq> None)
     \<and> (\<forall>(c, a)\<in>set (clone_slots w (m_bundleList m)).
           heap w' c = Some (if valid (cloned ext (the (heap w a)))
                             then bundle_reload_fe ext (m_front m) (cloned ext (the (heap w a)))
                             else cloned ext (the (heap w a))))
     \<and> (\<forall>x<next_addr w. heap w' x = heap w x)
     \<and> set (m_bundleList m') \<inter> set (m_bundleList m) = {}
     \<and> (\<forall>c\<in>set (m_bundleList m').
           \<exists>m'' w''. deleteBundle m' (Some c) w' = Inr (False, m'', w'')
             \<and> (\<forall>a\<in>set (m_bundleList m). heap w'' a = heap w a))"
proof -
  define L where "L = map fst (filter (valid_clone ext w) (clone_slots w (m_bundleList m)))"
  define fe where "fe = m_front m"
  from clone_loop_live [OF assms, of "AssetManager_default ext" ext]
  obtain w1 where
    loop: "clone_loop ext (AssetManager_default ext) w (m_bundleList m) =
            Inr ((AssetManager_default ext)\<lparr>m_bundleList := L\<rparr>, w1)"
    and old: "\<forall>x<next_addr w. heap w1 x = heap w x"
    and new: "\<forall>(c, a)\<in>set (clone_slots w (m_bundleList m)).
                 heap w1 c = Some (cloned ext (the (heap w a)))"
    by (auto simp: AssetManager_default_def L_def)
  define current where "current = (AssetManager_default ext)\<lparr>m_bundleList := L\<rparr>"
  have Lc: "m_bundleList current = L"
    by (simp add: current_def)
  have inL: "\<exists>a. (c, a) \<in> set (clone_slots w (m_bundleList m))" if "c \<in> set L" for c
    using that by (auto simp: L_def)
  have Llive: "live w1 L"
    unfolding live_set using inL new by fastforce
  have dL: "distinct L"
    unfolding L_def by (rule distinct_map_filter_fst) (rule distinct_clone_slots)
  define w2 where "w2 = w1\<lparr>heap := fold (reload_in_heap ext fe) L (heap w1),
      trace := trace w1 @ map (\<lambda>a. (a, ReloadFe fe)) L\<rparr>"
  define m' where "m' = current\<lparr>m_front := fe, m_debug := m_debug m,
      activated := (fe \<noteq> None \<and> m_debug m \<noteq> None)\<rparr>"
  have act: "activate ext current fe (m_debug m) w1 = Inr (m', w2)"
    using activate_live [of w1 current ext fe "m_debug m"] Llive
    by (simp add: Lc m'_def w2_def)
  have res: "clone ext m w = Inr (m', w2)"
    using loop act by (simp add: clone_def current_def fe_def)
  have Lm: "m_bundleList m' = L"
    by (simp add: m'_def current_def)
  have h2: "heap w2 x = (if x \<in> set L then map_option (bundle_reload_fe ext fe) (heap w1 x) else heap w1 x)"
    for x
    by (simp add: w2_def fold_reload_distinct [OF dL])
  have above: "next_addr w \<le> c" if "c \<in> set L" for c
    using inL [OF that] clone_slots_fst by blast
  have below: "a < next_addr w" if "a \<in> set (m_bundleList m)" for a
    using live_below [OF assms that] .
  have disj: "set L \<inter> set (m_bundleList m) = {}"
    using above below by fastforce
  have keep: "\<forall>x<next_addr w. heap w2 x = heap w x"
    using old above by (fastforce simp: h2)
  have clones: "\<forall>(c, a)\<in>set (clone_slots w (m_bundleList m)).
           heap w2 c = Some (if valid (cloned ext (the (heap w a)))
                             then bundle_reload_fe ext fe (cloned ext (the (heap w a)))
                             else cloned ext (the (heap w a)))"
  proof (intro ballI, clarify)
    fix c a
    assume slot: "(c, a) \<in> set (clone_slots w (m_bundleList m))"
    have "c \<in> set L \<longleftrightarrow> valid (cloned ext (the (heap w a)))"
      unfolding L_def using in_filtered_keys [OF distinct_clone_slots slot, of "valid_clone ext w"]
      by (simp add: valid_clone_def)
    moreover have "heap w1 c = Some (cloned ext (the (heap w a)))"
      using new slot by auto
    ultimately show "heap w2 c = Some (if valid (cloned ext (the (heap w a)))
                             then bundle_reload_fe ext fe (cloned ext (the (heap w a)))
                             else cloned ext (the (heap w a)))"
      by (simp add: h2)
  qed
  have del: "\<exists>m'' w''. deleteBundle m' (Some c) w2 = Inr (False, m'', w'')
             \<and> (\<forall>a\<in>set (m_bundleList m). heap w'' a = heap w a)" if "c \<in> set L" for c
  proof -
    from inL [OF that] obtain a where slot: "(c, a) \<in> set (clone_slots w (m_bundleList m))"
      by blast
    with clones have "heap w2 c \<noteq> None"
      by auto
    then have "deleteBundle m' (Some c) w2 =
        Inr (False, m'\<lparr>m_bundleList := removeAll c (m_bundleList m')\<rparr>, w2\<lparr>heap := (heap w2)(c := None)\<rparr>)"
      by (auto simp: deleteBundle_def Let_def)
    moreover have "\<forall>a\<in>set (m_bundleList m). heap (w2\<lparr>heap := (heap w2)(c := None)\<rparr>) a = heap w a"
      using keep below above [OF that] by fastforce
    ultimately show ?thesis
      by blast
  qed
  have "m_front m' = m_front m \<and> m_debug m' = m_debug m
     \<and> (activated m' \<longleftrightarrow> m_front m \<noteq> None \<and> m_debug m \<noteq> None)"
    by (simp add: m'_def fe_def)
  with res Lm clones keep disj del show ?thesis
    unfolding L_def [symmetric] fe_def [symmetric] by (intro exI [of _ m'] exI [of _ w2]) simp
qed

theorem clone_is_independent_witness:
  "live sample_world [1, 2, 0] \<and> fresh_above sample_world
   \<and> (\<exists>m' w'. clone sample_ext (sample_manager [1, 2, 0]) sample_world = Inr (m', w')
        \<and> m_bundleList m' = [5, 6]
        \<and> m_front m' = Some 0 \<and> m_debug m' = Some 0 \<and> activated m'
        \<and> heap w' 5 = Some \<lparr>valid = True, active = True, bundle_debug = None, impl = (1, 2)\<rparr>
        \<and> heap w' 6 = Some \<lparr>valid = True, active = True, bundle_debug = None, impl = (2, 2)\<rparr>
        \<and> heap w' 7 = Some \<lparr>valid = False, active = True, bundle_debug = None, impl = (0, 1)\<rparr>
        \<and> heap w' 1 = Some (sample_bundle 1 True) \<and> heap w' 2 = Some (sample_bundle 2 True))"
proof -
  let ?m = "sample_manager [1, 2, 0]"
  have l: "live sample_world (m_bundleList ?m)"
    by simp
  note f = fresh_above_sample_world
  from clone_is_independent [OF l f, of sample_ext]
  obtain m' w' where
    res: "clone sample_ext ?m sample_world = Inr (m', w')"
    and reg: "m_bundleList m' =
        map fst (filter (valid_clone sample_ext sample_world) (clone_slots sample_world (m_bundleList ?m)))"
    and refs: "m_front m' = m_front ?m" "m_debug m' = m_debug ?m"
      "activated m' \<longleftrightarrow> m_front ?m \<noteq> None \<and> m_debug ?m \<noteq> None"
    and clones: "\<forall>(c, a)\<in>set (clone_slots sample_world (m_bundleList ?m)).
           heap w' c = Some (if valid (cloned sample_ext (the (heap sample_world a)))
                             then bundle_reload_fe sample_ext (m_front ?m)
                                    (cloned sample_ext (the (heap sample_world a)))
                             else cloned sample_ext (the (heap sample_world a)))"
    and keep: "\<forall>x<next_addr sample_world. heap w' x = heap sample_world x"
    by blast
  have slots: "clone_slots sample_world (m_bundleList ?m) = [(5, Suc 0), (6, 2), (7, 0)]"
    by (simp add: clone_slots_def sample_world_def upt_rec)
  have c:
    "cloned sample_ext (sample_bundle (Suc 0) True)
       = \<lparr>valid = True, active = True, bundle_debug = None, impl = (Suc 0, Suc 0)\<rparr>"
    "cloned sample_ext (sample_bundle 2 True)
       = \<lparr>valid = True, active = True, bundle_debug = None, impl = (2, Suc 0)\<rparr>"
    "cloned sample_ext (sample_bundle 0 True)
       = \<lparr>valid = False, active = True, bundle_debug = None, impl = (0, Suc 0)\<rparr>"
    by (simp_all add: cloned_def sample_ext_def sample_bundle_def sample_reload_def)
  have r: "bundle_reload_fe sample_ext = (\<lambda>fe. sample_reload)"
    by (simp add: sample_ext_def)
  have "m_bundleList m' = [5, 6]"
    unfolding reg slots by (simp add: valid_clone_def c)
  moreover have "m_front m' = Some 0 \<and> m_debug m' = Some 0 \<and> activated m'"
    using refs by (simp add: sample_manager_def)
  moreover have "heap w' 5 = Some \<lparr>valid = True, active = True, bundle_debug = None, impl = (1, 2)\<rparr>
      \<and> heap w' 6 = Some \<lparr>valid = True, active = True, bundle_debug = None, impl = (2, 2)\<rparr>
      \<and> heap w' 7 = Some \<lparr>valid = False, active = True, bundle_debug = None, impl = (0, 1)\<rparr>"
    using clones unfolding slots by (simp add: c r sample_reload_def)
  moreover have "heap w' 1 = Some (sample_bundle 1 True) \<and> heap w' 2 = Some (sample_bundle 2 True)"
    using keep by (simp add: sample_world_def)
  ultimately show ?thesis
    using l f res by simp
qed

end
